theory Spec2Isabelle
  imports Main "HOL-Library.Sublist"
begin


section \<open>Python values and payload literals\<close>

text \<open>
  Exceptions are values. \<open>LiteralError\<close> stands for the \<^verbatim>\<open>SyntaxError\<close> and
  \<^verbatim>\<open>ValueError\<close> that \<^verbatim>\<open>ast.literal_eval\<close> raises (the driver never tells them apart:
  it catches neither); \<open>RemoteError\<close> is any exception raised by a call into the
  completion endpoint or the agent platform.
\<close>

datatype exn = LiteralError | RemoteError string

text \<open>The Python values a payload literal denotes. A \<^verbatim>\<open>dict\<close> keeps insertion order.\<close>

datatype pyval =
    PyNone
  | PyBool bool
  | PyInt int
  | PyStr string
  | PyList "pyval list"
  | PyDict "(pyval \<times> pyval) list"

text \<open>
  \<^verbatim>\<open>ast.literal_eval\<close> is a library function, so the extractor below takes the literal
  evaluator as a parameter and every general theorem holds for any evaluator. For
  concrete replies the evaluator is instantiated with \<open>literal_eval\<close>, which evaluates
  the literals of the tool-call protocol: dictionaries and lists of \<^verbatim>\<open>None\<close>,
  \<^verbatim>\<open>True\<close>, \<^verbatim>\<open>False\<close>, decimal integers and quoted strings without escapes. Text
  outside this fragment is rejected, so \<open>literal_eval\<close> is only evaluated on literals
  of the fragment and on text that Python rejects too.
\<close>

datatype token =
    TLBrace | TRBrace | TLBrack | TRBrack | TColon | TComma
  | TVal pyval

datatype lex_state = LIdle | LStr char string | LNum string | LWord string

definition is_digit :: "char \<Rightarrow> bool" where
  "is_digit c \<longleftrightarrow> (let n = (of_char c :: nat) in 48 \<le> n \<and> n \<le> 57)"

definition is_letter :: "char \<Rightarrow> bool" where
  "is_letter c \<longleftrightarrow>
     (let n = (of_char c :: nat) in (65 \<le> n \<and> n \<le> 90) \<or> (97 \<le> n \<and> n \<le> 122) \<or> c = CHR ''_'')"

definition is_space :: "char \<Rightarrow> bool" where
  "is_space c \<longleftrightarrow> c = CHR '' '' \<or> c = CHR 0x09 \<or> c = CHR 0x0A"

definition digits_value :: "string \<Rightarrow> int" where
  "digits_value ds = foldl (\<lambda>n d. 10 * n + (int (of_char d) - 48)) 0 ds"

definition number_token :: "string \<Rightarrow> token option" where
  "number_token w =
     (let neg = (w \<noteq> [] \<and> hd w = CHR ''-'');
          ds = (if neg then tl w else w)
      in if ds \<noteq> [] \<and> list_all is_digit ds \<and> (hd ds \<noteq> CHR ''0'' \<or> list_all (\<lambda>d. d = CHR ''0'') ds)
         then Some (TVal (PyInt (if neg then - digits_value ds else digits_value ds)))
         else None)"

definition word_token :: "string \<Rightarrow> token option" where
  "word_token w =
     (if w = ''True'' then Some (TVal (PyBool True))
      else if w = ''False'' then Some (TVal (PyBool False))
      else if w = ''None'' then Some (TVal PyNone)
      else None)"

definition lex_idle :: "char \<Rightarrow> token list \<Rightarrow> (lex_state \<times> token list) option" where
  "lex_idle c ts =
     (if is_space c then Some (LIdle, ts)
      else if c = CHR ''{'' then Some (LIdle, ts @ [TLBrace])
      else if c = CHR ''}'' then Some (LIdle, ts @ [TRBrace])
      else if c = CHR ''['' then Some (LIdle, ts @ [TLBrack])
      else if c = CHR '']'' then Some (LIdle, ts @ [TRBrack])
      else if c = CHR '':'' then Some (LIdle, ts @ [TColon])
      else if c = CHR '','' then Some (LIdle, ts @ [TComma])
      else if c = CHR 0x27 \<or> c = CHR 0x22 then Some (LStr c [], ts)
      else if is_digit c \<or> c = CHR ''-'' then Some (LNum [c], ts)
      else if is_letter c then Some (LWord [c], ts)
      else None)"

fun lex_step :: "lex_state \<times> token list \<Rightarrow> char \<Rightarrow> (lex_state \<times> token list) option" where
  "lex_step (LIdle, ts) c = lex_idle c ts"
| "lex_step (LStr q acc, ts) c =
     (if c = q then Some (LIdle, ts @ [TVal (PyStr acc)])
      else if c = CHR 0x5C \<or> c = CHR 0x0A then None
      else Some (LStr q (acc @ [c]), ts))"
| "lex_step (LNum acc, ts) c =
     (if is_digit c then Some (LNum (acc @ [c]), ts)
      else (case number_token acc of None \<Rightarrow> None | Some t \<Rightarrow> lex_idle c (ts @ [t])))"
| "lex_step (LWord acc, ts) c =
     (if is_letter c \<or> is_digit c then Some (LWord (acc @ [c]), ts)
      else (case word_token acc of None \<Rightarrow> None | Some t \<Rightarrow> lex_idle c (ts @ [t])))"

fun lex_from :: "lex_state \<times> token list \<Rightarrow> string \<Rightarrow> token list option" where
  "lex_from (LIdle, ts) [] = Some ts"
| "lex_from (LStr q acc, ts) [] = None"
| "lex_from (LNum acc, ts) [] = map_option (\<lambda>t. ts @ [t]) (number_token acc)"
| "lex_from (LWord acc, ts) [] = map_option (\<lambda>t. ts @ [t]) (word_token acc)"
| "lex_from st (c # cs) = (case lex_step st c of None \<Rightarrow> None | Some st' \<Rightarrow> lex_from st' cs)"

text \<open>
  The parser is a pushdown automaton over the tokens: a stack of open containers and a
  cursor that either expects a value (\<open>Expect closing\<close>: a closing bracket is allowed
  right after an opening bracket or a comma) or holds a finished one.
\<close>

datatype frame = InList "pyval list" | InDict "(pyval \<times> pyval) list" | InEntry "(pyval \<times> pyval) list" pyval

datatype cursor = Expect bool | Done pyval

text \<open>
  Dictionary keys must be hashable, and \<^verbatim>\<open>True == 1\<close>, \<^verbatim>\<open>False == 0\<close> as keys.
  A repeated key keeps its first position and takes the last value.
\<close>

fun hashable :: "pyval \<Rightarrow> bool" where
  "hashable (PyList _) = False"
| "hashable (PyDict _) = False"
| "hashable _ = True"

fun key_eq :: "pyval \<Rightarrow> pyval \<Rightarrow> bool" where
  "key_eq (PyBool b) (PyInt n) = (n = (if b then 1 else 0))"
| "key_eq (PyInt n) (PyBool b) = (n = (if b then 1 else 0))"
| "key_eq a b = (a = b)"

fun dict_set :: "pyval \<Rightarrow> pyval \<Rightarrow> (pyval \<times> pyval) list \<Rightarrow> (pyval \<times> pyval) list" where
  "dict_set k v [] = [(k, v)]"
| "dict_set k v ((k', v') # kvs) = (if key_eq k k' then (k', v) # kvs else (k', v') # dict_set k v kvs)"

fun parse_step :: "frame list \<times> cursor \<Rightarrow> token \<Rightarrow> (frame list \<times> cursor) option" where
  "parse_step (st, Expect c) (TVal v) = Some (st, Done v)"
| "parse_step (st, Expect c) TLBrack = Some (InList [] # st, Expect True)"
| "parse_step (st, Expect c) TLBrace = Some (InDict [] # st, Expect True)"
| "parse_step (InList vs # st, Expect True) TRBrack = Some (st, Done (PyList vs))"
| "parse_step (InDict kvs # st, Expect True) TRBrace = Some (st, Done (PyDict kvs))"
| "parse_step (InList vs # st, Done v) TComma = Some (InList (vs @ [v]) # st, Expect True)"
| "parse_step (InList vs # st, Done v) TRBrack = Some (st, Done (PyList (vs @ [v])))"
| "parse_step (InDict kvs # st, Done k) TColon =
     (if hashable k then Some (InEntry kvs k # st, Expect False) else None)"
| "parse_step (InEntry kvs k # st, Done v) TComma = Some (InDict (dict_set k v kvs) # st, Expect True)"
| "parse_step (InEntry kvs k # st, Done v) TRBrace = Some (st, Done (PyDict (dict_set k v kvs)))"
| "parse_step _ _ = None"

fun parse_from :: "frame list \<times> cursor \<Rightarrow> token list \<Rightarrow> pyval option" where
  "parse_from ([], Done v) [] = Some v"
| "parse_from _ [] = None"
| "parse_from st (t # ts) = (case parse_step st t of None \<Rightarrow> None | Some st' \<Rightarrow> parse_from st' ts)"

definition literal_eval :: "string \<Rightarrow> exn + pyval" where
  "literal_eval s =
     (case lex_from (LIdle, []) s of
        None \<Rightarrow> Inl LiteralError
      | Some ts \<Rightarrow> (case parse_from ([], Expect False) ts of None \<Rightarrow> Inl LiteralError | Some v \<Rightarrow> Inr v))"


section \<open>The regular expression of the extractor\<close>

text \<open>
  The constructs of Python's \<^verbatim>\<open>re\<close> that the extractor's pattern uses: a literal
  character, a character class, concatenation, greedy repetition and a capturing group.
  \<open>matches r (s, g)\<close> lists every way \<open>r\<close> can match a prefix of \<open>s\<close>, as the
  remaining text and the groups captured, in the order in which the backtracking matcher
  tries them (a greedy repetition tries the longest first). \<^verbatim>\<open>re.search\<close> returns the
  first match at the leftmost position that has one.
\<close>

datatype regex =
    RLit char
  | RCls "char \<Rightarrow> bool"
  | RSeq regex regex
  | RStar regex
  | RGrp nat regex

type_synonym groups = "nat \<Rightarrow> string option"

fun matches :: "regex \<Rightarrow> string \<times> groups \<Rightarrow> (string \<times> groups) list" where
  "matches (RLit c) (s, g) = (case s of [] \<Rightarrow> [] | x # xs \<Rightarrow> if x = c then [(xs, g)] else [])"
| "matches (RCls p) (s, g) = (case s of [] \<Rightarrow> [] | x # xs \<Rightarrow> if p x then [(xs, g)] else [])"
| "matches (RSeq a b) (s, g) = concat (map (matches b) (matches a (s, g)))"
| "matches (RStar a) (s, g) =
     concat (map (\<lambda>(s', g'). if length s' < length s then matches (RStar a) (s', g') else [])
                 (matches a (s, g))) @ [(s, g)]"
| "matches (RGrp n a) (s, g) =
     map (\<lambda>(s', g'). (s', g'(n \<mapsto> take (length s - length s') s))) (matches a (s, g))"

definition RPlus :: "regex \<Rightarrow> regex" where
  "RPlus a = RSeq a (RStar a)"

fun re_search :: "regex \<Rightarrow> string \<Rightarrow> groups option" where
  "re_search r [] = (case matches r ([], Map.empty) of [] \<Rightarrow> None | (_, g) # _ \<Rightarrow> Some g)"
| "re_search r (c # cs) =
     (case matches r (c # cs, Map.empty) of [] \<Rightarrow> re_search r cs | (_, g) # _ \<Rightarrow> Some g)"

text \<open>
  \<^verbatim>\<open>re.search(r"\[([A-Za-z0-9_\-]+)({.*})\]", content)\<close>: the class of the tool name,
  the dot (any character but a line feed) and the pattern itself.
\<close>

definition name_char :: "char \<Rightarrow> bool" where
  "name_char c \<longleftrightarrow>
     (let n = (of_char c :: nat) in
      (65 \<le> n \<and> n \<le> 90) \<or> (97 \<le> n \<and> n \<le> 122) \<or> (48 \<le> n \<and> n \<le> 57)
      \<or> c = CHR ''_'' \<or> c = CHR ''-'')"

definition not_newline :: "char \<Rightarrow> bool" where
  "not_newline c \<longleftrightarrow> c \<noteq> CHR 0x0A"

definition tool_call_pattern :: regex where
  "tool_call_pattern =
     RSeq (RLit CHR ''['')
      (RSeq (RGrp 1 (RPlus (RCls name_char)))
       (RSeq (RGrp 2 (RSeq (RLit CHR ''{'') (RSeq (RStar (RCls not_newline)) (RLit CHR ''}''))))
        (RLit CHR '']'')))"

text \<open>The part of the pattern after the tool name.\<close>

definition call_tail :: regex where
  "call_tail = RSeq (RGrp 2 (RSeq (RLit CHR ''{'') (RSeq (RStar (RCls not_newline)) (RLit CHR ''}'')))) (RLit CHR '']'')"

section \<open>The tool-call extractor\<close>

text \<open>
  The reply of the chat-completion endpoint; \<open>content\<close> is
  \<^verbatim>\<open>model_response["choices"][0]["message"]["content"]\<close>, the token counts are
  \<^verbatim>\<open>response.usage\<close>.
\<close>

record chat_response =
  content :: string
  usage_completion_tokens :: int
  usage_prompt_tokens :: int
  usage_total_tokens :: int

text \<open>
  \<^verbatim>\<open>get_function_and_payload\<close>. \<open>m 1\<close> and \<open>m 2\<close> are \<^verbatim>\<open>match.group(1)\<close> and
  \<^verbatim>\<open>match.group(2)\<close>; \<open>lit\<close> is \<^verbatim>\<open>ast.literal_eval\<close>, whose exception leaves the
  function. Without a match both results are \<^verbatim>\<open>None\<close>.
\<close>

definition get_function_and_payload ::
    "(string \<Rightarrow> exn + pyval) \<Rightarrow> chat_response \<Rightarrow> exn + (string option \<times> pyval option)" where
  "get_function_and_payload lit model_response =
     (case re_search tool_call_pattern (content model_response) of
        Some m \<Rightarrow>
          (case m 2 of
             None \<Rightarrow> Inl LiteralError
           | Some payload_str \<Rightarrow>
               (case lit payload_str of
                  Inl e \<Rightarrow> Inl e
                | Inr payload \<Rightarrow> Inr (m 1, Some payload)))
      | None \<Rightarrow> Inr (None, None))"

definition reply :: "string \<Rightarrow> chat_response" where
  "reply c = \<lparr>content = c, usage_completion_tokens = 0, usage_prompt_tokens = 0, usage_total_tokens = 0\<rparr>"

text \<open>
  What the specification calls the well-formed bracketed calls of a reply: every substring
  \<^verbatim>\<open>[name{...}]\<close> whose name is a non-empty run of characters of the tool-name class and
  whose brace-delimited part the literal evaluator accepts as a dictionary, leftmost first.
  These three definitions follow the wording of the specification, not the code: they
  state what a reply with one or with two well-formed calls is.
\<close>

definition call_shape :: "string \<Rightarrow> (string \<times> string) option" where
  "call_shape w =
     (case w of
        [] \<Rightarrow> None
      | c # r \<Rightarrow>
          (let name = takeWhile name_char r; rest = dropWhile name_char r
           in if c = CHR ''['' \<and> name \<noteq> [] \<and> 3 \<le> length rest \<and> hd rest = CHR ''{''
                 \<and> last rest = CHR '']'' \<and> last (butlast rest) = CHR ''}''
              then Some (name, butlast rest) else None))"

definition substrings :: "string \<Rightarrow> string list" where
  "substrings c = concat (map (\<lambda>i. map (\<lambda>n. take n (drop i c)) [1..<Suc (length c - i)]) [0..<length c])"

definition well_formed_calls :: "(string \<Rightarrow> exn + pyval) \<Rightarrow> string \<Rightarrow> (string \<times> pyval) list" where
  "well_formed_calls lit c =
     concat (map (\<lambda>w. case call_shape w of
                          None \<Rightarrow> []
                        | Some (name, body) \<Rightarrow>
                            (case lit body of Inr (PyDict kvs) \<Rightarrow> [(name, PyDict kvs)] | _ \<Rightarrow> []))
                 (substrings c))"

section \<open>The conversation driver\<close>

text \<open>
  \<^verbatim>\<open>MeetingAgent.run\<close>. The completion endpoint and the agent platform are outside the
  program. Each call into them is recorded as a \<open>request\<close>, in order, and the
  environment \<open>env\<close> gives the answer of each call as a function of all the requests
  sent so far, the current one included; an answer is a value or an exception. The wall
  clock and the random generator are read the same way. Printing and timing have no
  effect on the control flow and are left out.
\<close>

datatype tool_call_type = XPANDER | LOCAL

record tool_call =
  name :: "string option"
  call_type :: tool_call_type
  payload :: "pyval option"
  tool_call_id :: string

record tool_call_result =
  function_name :: "string option"
  status_code :: int
  is_success :: bool
  result_payload :: "pyval option"

record execution_result =
  result :: string
  memory_thread_id :: string

record message =
  role :: string
  message_content :: string

record llm_tokens =
  completion_tokens :: int
  prompt_tokens :: int
  total_tokens :: int

datatype request =
    AddTask string "string option"
  | AddMessages "message list"
  | ChatCompletionsCreate string
  | ReportLlmUsage chat_response
  | AddResponse chat_response
  | RunTools "tool_call list"
  | RetrieveExecutionResult
  | ReportExecutionMetrics llm_tokens string

record env =
  now :: "request list \<Rightarrow> string"
  randint :: "request list \<Rightarrow> nat"
  add_task :: "request list \<Rightarrow> exn + unit"
  add_messages :: "request list \<Rightarrow> exn + unit"
  completions_create :: "request list \<Rightarrow> exn + chat_response"
  report_llm_usage :: "request list \<Rightarrow> exn + unit"
  run_tools :: "request list \<Rightarrow> exn + tool_call_result list"
  retrieve_execution_result :: "request list \<Rightarrow> exn + execution_result"
  report_execution_metrics :: "request list \<Rightarrow> exn + unit"

record loop_state =
  is_finished :: bool
  execution_tokens :: llm_tokens
  sent :: "request list"

type_synonym 'a action = "loop_state \<Rightarrow> (exn + 'a) \<times> loop_state"

definition ret :: "'a \<Rightarrow> 'a action" where
  "ret x st = (Inr x, st)"

definition then_do :: "'a action \<Rightarrow> ('a \<Rightarrow> 'b action) \<Rightarrow> 'b action" where
  "then_do m k st = (case m st of (Inl e, st') \<Rightarrow> (Inl e, st') | (Inr x, st') \<Rightarrow> k x st')"

definition remote :: "request \<Rightarrow> (request list \<Rightarrow> exn + 'a) \<Rightarrow> 'a action" where
  "remote rq answer st = (let h = sent st @ [rq] in (answer h, st\<lparr>sent := h\<rparr>))"

definition sentinel :: string where
  "sentinel = ''xpfinish-agent-execution-finished''"

definition default_task :: string where
  "default_task = ''Please check the status of all recorded meetings.''"

definition py_str :: "string option \<Rightarrow> string" where
  "py_str x = (case x of None \<Rightarrow> ''None'' | Some s \<Rightarrow> s)"

definition truthy :: "string option \<Rightarrow> bool" where
  "truthy x = (case x of None \<Rightarrow> False | Some s \<Rightarrow> s \<noteq> [])"

fun decimal :: "nat \<Rightarrow> string" where
  "decimal n = (if n < 10 then [''0123456789'' ! n] else decimal (n div 10) @ [''0123456789'' ! (n mod 10)])"

declare decimal.simps [simp del]

definition add_usage :: "llm_tokens \<Rightarrow> chat_response \<Rightarrow> llm_tokens" where
  "add_usage t response =
     \<lparr>completion_tokens = completion_tokens t + usage_completion_tokens response,
      prompt_tokens = prompt_tokens t + usage_prompt_tokens response,
      total_tokens = total_tokens t + usage_total_tokens response\<rparr>"

definition next_tool_calls :: "(string \<Rightarrow> exn + pyval) \<Rightarrow> env \<Rightarrow> tool_call list action" where
  "next_tool_calls lit env =
     then_do (remote (ChatCompletionsCreate ''nvidia/llama-3.1-nemotron-ultra-253b-v1'')
                (completions_create env)) (\<lambda>response.
     then_do (\<lambda>st. (Inr (), st\<lparr>execution_tokens := add_usage (execution_tokens st) response\<rparr>)) (\<lambda>_.
     then_do (remote (ReportLlmUsage response) (report_llm_usage env)) (\<lambda>_.
     then_do (remote (AddResponse response) (add_messages env)) (\<lambda>_.
     then_do (\<lambda>st. (get_function_and_payload lit response, st)) (\<lambda>(tool_name, payload) st.
       (Inr [\<lparr>name = tool_name, call_type = XPANDER, payload = payload,
              tool_call_id = ''call_'' @ decimal (100000 + randint env (sent st) mod 900000)\<rparr>],
        st))))))"

definition run_tool_calls :: "env \<Rightarrow> tool_call list \<Rightarrow> unit action" where
  "run_tool_calls env tool_calls =
     (if tool_calls \<noteq> [] then
        then_do (remote (RunTools tool_calls) (run_tools env)) (\<lambda>responses st.
          (Inr (),
           st\<lparr>is_finished :=
                foldl (\<lambda>fin response. if py_str (function_name response) = sentinel then True else fin)
                      (is_finished st) responses\<rparr>))
      else ret ())"

definition loop_body :: "(string \<Rightarrow> exn + pyval) \<Rightarrow> env \<Rightarrow> unit action" where
  "loop_body lit env = then_do (next_tool_calls lit env) (run_tool_calls env)"

partial_function (option) loop ::
    "(string \<Rightarrow> exn + pyval) \<Rightarrow> env \<Rightarrow> loop_state \<Rightarrow> ((exn + unit) \<times> loop_state) option" where
  "loop lit env st =
     (if \<not> is_finished st then
        (case loop_body lit env st of
           (Inl e, st') \<Rightarrow> Some (Inl e, st')
         | (Inr _, st') \<Rightarrow> if is_finished st' then Some (Inr (), st') else loop lit env st')
      else Some (Inr (), st))"

declare loop.simps [code]

fun iterations ::
    "nat \<Rightarrow> (string \<Rightarrow> exn + pyval) \<Rightarrow> env \<Rightarrow> loop_state \<Rightarrow> (exn + unit) \<times> loop_state" where
  "iterations 0 lit env st = (Inr (), st)"
| "iterations (Suc n) lit env st =
     (case iterations n lit env st of
        (Inl e, st') \<Rightarrow> (Inl e, st')
      | (Inr _, st') \<Rightarrow> if is_finished st' then (Inr (), st') else loop_body lit env st')"

definition start :: "env \<Rightarrow> string option \<Rightarrow> string option \<Rightarrow> unit action" where
  "start env prompt thread_id =
     (let task = (case prompt of None \<Rightarrow> default_task | Some p \<Rightarrow> if p = [] then default_task else p) in
      then_do (remote (AddTask task (if truthy thread_id then thread_id else None)) (add_task env)) (\<lambda>_ st.
        remote (AddMessages [\<lparr>role = ''assistant'',
                              message_content = ''the time now is : '' @ now env (sent st)\<rparr>])
               (add_messages env) st))"

definition finish :: "env \<Rightarrow> (string \<times> string) action" where
  "finish env =
     then_do (remote RetrieveExecutionResult (retrieve_execution_result env)) (\<lambda>res.
     then_do (\<lambda>st. remote (ReportExecutionMetrics (execution_tokens st) ''meta/llama-3.1-405b-instruct'')
                      (report_execution_metrics env) st) (\<lambda>_.
     ret (result res, memory_thread_id res)))"

definition initial_state :: "request list \<Rightarrow> loop_state" where
  "initial_state h0 =
     \<lparr>is_finished = False,
      execution_tokens = \<lparr>completion_tokens = 0, prompt_tokens = 0, total_tokens = 0\<rparr>,
      sent = h0\<rparr>"

definition run ::
    "(string \<Rightarrow> exn + pyval) \<Rightarrow> env \<Rightarrow> request list \<Rightarrow> string option \<Rightarrow> string option
       \<Rightarrow> ((exn + string \<times> string) \<times> request list) option" where
  "run lit env h0 prompt thread_id =
     (case start env prompt thread_id (initial_state h0) of
        (Inl e, st) \<Rightarrow> Some (Inl e, sent st)
      | (Inr _, st) \<Rightarrow>
          (case loop lit env st of
             None \<Rightarrow> None
           | Some (Inl e, st') \<Rightarrow> Some (Inl e, sent st')
           | Some (Inr _, st') \<Rightarrow> (case finish env st' of (r, st'') \<Rightarrow> Some (r, sent st''))))"

subsection \<open>An environment for examples\<close>

text \<open>
  A scripted environment for concrete runs: the model answers with the given replies in
  turn (the last one for ever), the platform executes every tool call and reports it under
  the name it was called with, and the execution result carries the thread of the task.
\<close>

fun completions_sent :: "request list \<Rightarrow> nat" where
  "completions_sent [] = 0"
| "completions_sent (ChatCompletionsCreate _ # h) = Suc (completions_sent h)"
| "completions_sent (_ # h) = completions_sent h"

fun thread_of :: "request list \<Rightarrow> string option" where
  "thread_of [] = None"
| "thread_of (AddTask _ t # h) = (case thread_of h of None \<Rightarrow> t | Some t' \<Rightarrow> Some t')"
| "thread_of (_ # h) = thread_of h"

definition echo :: "tool_call \<Rightarrow> tool_call_result" where
  "echo c = \<lparr>function_name = name c, status_code = 200, is_success = True, result_payload = payload c\<rparr>"

definition example_env :: "string list \<Rightarrow> env" where
  "example_env replies =
     \<lparr>now = (\<lambda>h. ''2025-04-23 08:00:00''),
      randint = (\<lambda>h. 23456),
      add_task = (\<lambda>h. Inr ()),
      add_messages = (\<lambda>h. Inr ()),
      completions_create = (\<lambda>h. Inr (reply (replies ! min (completions_sent h - 1) (length replies - 1)))),
      report_llm_usage = (\<lambda>h. Inr ()),
      run_tools = (\<lambda>h. case rev h of RunTools calls # _ \<Rightarrow> Inr (map echo calls)
                             | _ \<Rightarrow> Inl (RemoteError ''no tool call'')),
      retrieve_execution_result =
        (\<lambda>h. Inr \<lparr>result = ''done'',
                   memory_thread_id = (case thread_of h of None \<Rightarrow> ''thread-1'' | Some t \<Rightarrow> t)\<rparr>),
      report_execution_metrics = (\<lambda>h. Inr ())\<rparr>"

section \<open>Tool provisioning\<close>

text \<open>
  The first notebook. \<open>interfaces_dict\<close> is the dictionary of available interfaces,
  keyed by lower-cased name (a repeated name keeps its first position and the last handle).
  \<open>process_tool\<close> is one pass through the body of the loop over the configured tools,
  \<open>process_tools\<close> the whole loop. A tool configuration holds the keys
  \<^verbatim>\<open>interface\<close> and \<^verbatim>\<open>internal_name\<close>, each possibly absent; an operation may lack
  the attribute \<^verbatim>\<open>id_to_use_on_graph\<close>. \<^verbatim>\<open>str.lower\<close> is modelled on ASCII letters.
  Retrieving the operations of an interface is a call into the platform: its answer may
  depend on how many retrievals came before, and may be an exception, which the loop
  catches.
\<close>

record tool_config =
  cfg_interface :: "string option"
  cfg_internal_name :: "string option"

record operation =
  id_to_use_on_graph :: "string option"
  operation_name :: string

record provisioning =
  to_add :: "operation list"
  missing :: "string list"
  retrievals :: nat

definition lower_char :: "char \<Rightarrow> char" where
  "lower_char c =
     (case map_of (zip ''ABCDEFGHIJKLMNOPQRSTUVWXYZ'' ''abcdefghijklmnopqrstuvwxyz'') c of
        None \<Rightarrow> c | Some l \<Rightarrow> l)"

definition lower :: "string \<Rightarrow> string" where
  "lower s = map lower_char s"

fun dict_put :: "'k \<Rightarrow> 'v \<Rightarrow> ('k \<times> 'v) list \<Rightarrow> ('k \<times> 'v) list" where
  "dict_put k v [] = [(k, v)]"
| "dict_put k v ((k', v') # d) = (if k = k' then (k', v) # d else (k', v') # dict_put k v d)"

definition interfaces_dict :: "(string \<times> 'i) list \<Rightarrow> (string \<times> 'i) list" where
  "interfaces_dict available = foldl (\<lambda>interfaces (key, interface). dict_put (lower key) interface interfaces) [] available"

fun find_interface :: "string \<Rightarrow> (string \<times> 'i) list \<Rightarrow> 'i option" where
  "find_interface interface_name [] = None"
| "find_interface interface_name ((key, intf) # interfaces) =
     (if sublist interface_name key then Some intf else find_interface interface_name interfaces)"

definition process_tool ::
    "(nat \<Rightarrow> 'i \<Rightarrow> exn + operation list) \<Rightarrow> (string \<times> 'i) list \<Rightarrow> string list
       \<Rightarrow> provisioning \<Rightarrow> tool_config \<Rightarrow> provisioning" where
  "process_tool retrieve_agentic_operations interfaces existing_tools st tool_config =
     (let interface_name = lower (case cfg_interface tool_config of None \<Rightarrow> [] | Some v \<Rightarrow> v);
          internal_name = (case cfg_internal_name tool_config of None \<Rightarrow> [] | Some v \<Rightarrow> v)
      in if internal_name = [] then st
         else if internal_name \<in> set existing_tools then st
         else
           (case find_interface interface_name interfaces of
              None \<Rightarrow> st\<lparr>missing := missing st @ [internal_name]\<rparr>
            | Some interface \<Rightarrow>
                (case retrieve_agentic_operations (retrievals st) interface of
                   Inl e \<Rightarrow> st\<lparr>missing := missing st @ [internal_name], retrievals := Suc (retrievals st)\<rparr>
                 | Inr operations \<Rightarrow>
                     (case find (\<lambda>op. id_to_use_on_graph op = Some internal_name) operations of
                        Some operation \<Rightarrow>
                          st\<lparr>to_add := to_add st @ [operation], retrievals := Suc (retrievals st)\<rparr>
                      | None \<Rightarrow>
                          st\<lparr>missing := missing st @ [internal_name],
                             retrievals := Suc (retrievals st)\<rparr>))))"

definition process_tools ::
    "(nat \<Rightarrow> 'i \<Rightarrow> exn + operation list) \<Rightarrow> (string \<times> 'i) list \<Rightarrow> string list
       \<Rightarrow> tool_config list \<Rightarrow> provisioning" where
  "process_tools retrieve_agentic_operations interfaces existing_tools tools =
     foldl (process_tool retrieve_agentic_operations interfaces existing_tools)
           \<lparr>to_add = [], missing = [], retrievals = 0\<rparr> tools"

section \<open>What the pattern matches\<close>

lemma upt_Suc_Suc: "[0..<Suc (Suc n)] = 0 # map Suc [0..<Suc n]"
  by (simp add: upt_conv_Cons map_Suc_upt del: upt_Suc)

lemma matches_star_cls:
  "matches (RStar (RCls p)) (s, g) = map (\<lambda>k. (drop k s, g)) (rev [0..<Suc (length (takeWhile p s))])"
proof (induction s)
  case Nil
  show ?case by simp
next
  case (Cons x xs)
  show ?case
  proof (cases "p x")
    case True
    then show ?thesis using Cons
      by (simp add: upt_Suc_Suc rev_map del: upt_Suc)
  next
    case False
    then show ?thesis by simp
  qed
qed

lemma matches_plus_cls:
  "matches (RPlus (RCls p)) (s, g) = map (\<lambda>k. (drop k s, g)) (rev [1..<Suc (length (takeWhile p s))])"
proof (cases s)
  case Nil
  then show ?thesis by (simp add: RPlus_def)
next
  case (Cons x xs)
  show ?thesis
  proof (cases "p x")
    case True
    have "[1..<Suc (Suc (length (takeWhile p xs)))] = map Suc [0..<Suc (length (takeWhile p xs))]"
      by (simp add: map_Suc_upt del: upt_Suc)
    then show ?thesis using Cons True
      by (simp add: RPlus_def matches_star_cls rev_map del: upt_Suc matches.simps(4))
  next
    case False
    then show ?thesis using Cons by (simp add: RPlus_def)
  qed
qed

lemma matches_grp_plus_cls:
  "matches (RGrp n (RPlus (RCls p))) (s, g) =
     map (\<lambda>k. (drop k s, g(n \<mapsto> take k s))) (rev [1..<Suc (length (takeWhile p s))])"
proof -
  have "length (takeWhile p s) \<le> length s" by (rule length_takeWhile_le)
  then show ?thesis
    by (simp add: matches_plus_cls del: upt_Suc)
qed

lemma matches_star_lit:
  "matches (RSeq (RStar (RCls p)) (RLit c)) (s, g) =
     map (\<lambda>k. (drop (Suc k) s, g))
         (filter (\<lambda>k. k < length s \<and> s ! k = c) (rev [0..<Suc (length (takeWhile p s))]))"
proof -
  have *: "matches (RLit c) (drop k s, g) = (if k < length s \<and> s ! k = c then [(drop (Suc k) s, g)] else [])" for k
  proof (cases "k < length s")
    case True
    then have "drop k s = s ! k # drop (Suc k) s" by (simp add: Cons_nth_drop_Suc)
    then show ?thesis using True by simp
  next
    case False
    then show ?thesis by simp
  qed
  have **: "concat (map (\<lambda>k. if Q k then [f k] else []) ks) = map f (filter Q ks)" for Q f and ks :: "nat list"
    by (induction ks) auto
  show ?thesis
    by (simp add: matches_star_cls comp_def * ** del: upt_Suc matches.simps(1) matches.simps(4))
qed


lemma concat_map_if: "concat (map (\<lambda>k. if Q k then [f k] else []) ks) = map f (filter Q ks)"
  by (induction ks) auto

lemma matches_lit_drop:
  "matches (RLit c) (drop k s, g) = (if k < length s \<and> s ! k = c then [(drop (Suc k) s, g)] else [])"
proof (cases "k < length s")
  case True
  then have "drop k s = s ! k # drop (Suc k) s" by (simp add: Cons_nth_drop_Suc)
  then show ?thesis using True by simp
next
  case False
  then show ?thesis by simp
qed

lemma matches_grp2:
  "matches (RGrp 2 (RSeq (RLit CHR ''{'') (RSeq (RStar (RCls not_newline)) (RLit CHR ''}'')))) (CHR ''{'' # r, g) =
     map (\<lambda>k. (drop (Suc k) r, g(2 \<mapsto> CHR ''{'' # take (Suc k) r)))
         (filter (\<lambda>k. k < length r \<and> r ! k = CHR ''}'') (rev [0..<Suc (length (takeWhile not_newline r))]))"
proof -
  have "matches (RSeq (RLit CHR ''{'') (RSeq (RStar (RCls not_newline)) (RLit CHR ''}''))) (CHR ''{'' # r, g)
      = matches (RSeq (RStar (RCls not_newline)) (RLit CHR ''}'')) (r, g)"
    by simp
  then show ?thesis
    unfolding matches.simps(5) matches_star_lit
    by (simp add: comp_def Suc_diff_le del: upt_Suc cong: map_cong)
qed

lemma matches_call_tail_brace:
  "matches call_tail (CHR ''{'' # r, g) =
     map (\<lambda>k. (drop (Suc (Suc k)) r, g(2 \<mapsto> CHR ''{'' # take (Suc k) r)))
         (filter (\<lambda>k. Suc k < length r \<and> r ! k = CHR ''}'' \<and> r ! Suc k = CHR '']'')
                 (rev [0..<Suc (length (takeWhile not_newline r))]))"
proof -
  have "matches call_tail (CHR ''{'' # r, g) =
      concat (map (\<lambda>k. matches (RLit CHR '']'') (drop (Suc k) r, g(2 \<mapsto> CHR ''{'' # take (Suc k) r)))
         (filter (\<lambda>k. k < length r \<and> r ! k = CHR ''}'') (rev [0..<Suc (length (takeWhile not_newline r))])))"
    unfolding call_tail_def matches.simps(3) matches_grp2 by (simp add: comp_def del: upt_Suc matches.simps)
  also have "\<dots> = map (\<lambda>k. (drop (Suc (Suc k)) r, g(2 \<mapsto> CHR ''{'' # take (Suc k) r)))
         (filter (\<lambda>k. Suc k < length r \<and> r ! Suc k = CHR '']'')
           (filter (\<lambda>k. k < length r \<and> r ! k = CHR ''}'') (rev [0..<Suc (length (takeWhile not_newline r))])))"
    unfolding matches_lit_drop by (rule concat_map_if)
  also have "\<dots> = map (\<lambda>k. (drop (Suc (Suc k)) r, g(2 \<mapsto> CHR ''{'' # take (Suc k) r)))
         (filter (\<lambda>k. Suc k < length r \<and> r ! k = CHR ''}'' \<and> r ! Suc k = CHR '']'')
                 (rev [0..<Suc (length (takeWhile not_newline r))]))"
    by (simp del: upt_Suc) (metis Suc_lessD)
  finally show ?thesis .
qed

lemma matches_call_tail_other:
  "s = [] \<or> hd s \<noteq> CHR ''{'' \<Longrightarrow> matches call_tail (s, g) = []"
  by (cases s) (auto simp: call_tail_def)


lemma not_name_char_brace: "\<not> name_char CHR ''{''"
  by (simp add: name_char_def)

lemma matches_name_then_tail:
  "matches (RSeq (RGrp 1 (RPlus (RCls name_char))) call_tail) (r, g) =
     (if takeWhile name_char r = [] then []
      else matches call_tail (dropWhile name_char r, g(1 \<mapsto> takeWhile name_char r)))"
proof (cases "takeWhile name_char r = []")
  case True
  then show ?thesis
    unfolding matches.simps(3) matches_grp_plus_cls by simp
next
  case False
  define n where "n = length (takeWhile name_char r)"
  have n: "0 < n" using False by (simp add: n_def)
  have split: "rev [1..<Suc n] = n # rev [1..<n]" using n by simp
  have dead: "matches call_tail (drop k r, g(1 \<mapsto> take k r)) = []" if "k \<in> set (rev [1..<n])" for k
  proof -
    from that have k: "k < n" by simp
    then have "k < length r" using length_takeWhile_le[of name_char r] by (simp add: n_def)
    moreover have "name_char (r ! k)"
      using k nth_mem[of k "takeWhile name_char r"] set_takeWhileD[of "r ! k" name_char r]
      by (simp add: n_def takeWhile_nth)
    ultimately have "drop k r \<noteq> [] \<and> hd (drop k r) \<noteq> CHR ''{''"
      using not_name_char_brace by (auto simp: hd_drop_conv_nth)
    then show ?thesis by (cases "drop k r") (auto simp: call_tail_def)
  qed
  have "matches (RSeq (RGrp 1 (RPlus (RCls name_char))) call_tail) (r, g) =
      concat (map (\<lambda>k. matches call_tail (drop k r, g(1 \<mapsto> take k r))) (rev [1..<Suc n]))"
    unfolding matches.simps(3) matches_grp_plus_cls n_def by (simp add: comp_def del: upt_Suc)
  also have "\<dots> = matches call_tail (drop n r, g(1 \<mapsto> take n r))"
    unfolding split using dead by (simp del: upt_Suc)
  also have "\<dots> = matches call_tail (dropWhile name_char r, g(1 \<mapsto> takeWhile name_char r))"
    unfolding n_def by (metis dropWhile_eq_drop takeWhile_eq_take)
  finally show ?thesis using False by simp
qed

lemma tool_call_pattern_alt:
  "tool_call_pattern = RSeq (RLit CHR ''['') (RSeq (RGrp 1 (RPlus (RCls name_char))) call_tail)"
  by (simp add: tool_call_pattern_def call_tail_def)

lemma matches_pattern_other:
  "s = [] \<or> hd s \<noteq> CHR ''['' \<Longrightarrow> matches tool_call_pattern (s, g) = []"
  by (cases s) (auto simp: tool_call_pattern_def)

lemma matches_pattern_bracket:
  "matches tool_call_pattern (CHR ''['' # r, g) =
     (if takeWhile name_char r = [] then []
      else matches call_tail (dropWhile name_char r, g(1 \<mapsto> takeWhile name_char r)))"
  unfolding tool_call_pattern_alt matches.simps(3)[of "RLit CHR ''[''"] matches_name_then_tail[symmetric]
  by simp


lemma take_le_takeWhile:
  assumes "k \<le> length (takeWhile P xs)"
  shows "\<forall>c\<in>set (take k xs). P c"
proof -
  have "take k xs = take k (takeWhile P xs)"
    using assms by (metis min.absorb1 takeWhile_eq_take take_take)
  then show ?thesis
    by (metis in_set_takeD set_takeWhileD)
qed

lemma matches_call_tail_sound:
  assumes "(s', g') \<in> set (matches call_tail (t, g))"
  shows "\<exists>body. t = ''{'' @ body @ ''}]'' @ s' \<and> (\<forall>c\<in>set body. not_newline c)
           \<and> g' = g(2 \<mapsto> ''{'' @ body @ ''}'')"
proof (cases t)
  case Nil
  then show ?thesis using assms matches_call_tail_other[of t g] by simp
next
  case (Cons c r)
  show ?thesis
  proof (cases "c = CHR ''{''")
    case False
    then show ?thesis using assms Cons matches_call_tail_other[of t g] by simp
  next
    case True
    from assms obtain k where k: "k \<le> length (takeWhile not_newline r)" "Suc k < length r"
        "r ! k = CHR ''}''" "r ! Suc k = CHR '']''"
        and s': "s' = drop (Suc (Suc k)) r" and g': "g' = g(2 \<mapsto> CHR ''{'' # take (Suc k) r)"
      unfolding Cons True matches_call_tail_brace by (auto simp: less_Suc_eq_le simp del: upt_Suc)
    have "r = take k r @ r ! k # drop (Suc k) r"
      using k(2) by (simp add: id_take_nth_drop[symmetric])
    moreover have "drop (Suc k) r = r ! Suc k # drop (Suc (Suc k)) r"
      using k(2) by (simp add: Cons_nth_drop_Suc)
    ultimately have r: "r = take k r @ ''}]'' @ s'"
      using k(3,4) s' by simp
    have "take (Suc k) r = take k r @ ''}''"
      using k(2,3) by (simp add: take_Suc_conv_app_nth)
    with g' have "g' = g(2 \<mapsto> ''{'' @ take k r @ ''}'')" by simp
    moreover have "\<forall>c\<in>set (take k r). not_newline c" using k(1) by (rule take_le_takeWhile)
    moreover have "t = ''{'' @ take k r @ ''}]'' @ s'" using Cons True r by simp
    ultimately show ?thesis by blast
  qed
qed

lemma matches_pattern_sound:
  assumes "(s', g') \<in> set (matches tool_call_pattern (s, g))"
  shows "\<exists>nm body. s = ''['' @ nm @ ''{'' @ body @ ''}]'' @ s' \<and> nm \<noteq> []
           \<and> (\<forall>c\<in>set nm. name_char c) \<and> (\<forall>c\<in>set body. not_newline c)
           \<and> g' = g(1 \<mapsto> nm, 2 \<mapsto> ''{'' @ body @ ''}'')"
proof (cases s)
  case Nil
  then show ?thesis using assms matches_pattern_other[of s g] by simp
next
  case (Cons c r)
  show ?thesis
  proof (cases "c = CHR ''[''")
    case False
    then show ?thesis using assms Cons matches_pattern_other[of s g] by simp
  next
    case True
    let ?nm = "takeWhile name_char r"
    from assms have ne: "?nm \<noteq> []"
      and mem: "(s', g') \<in> set (matches call_tail (dropWhile name_char r, g(1 \<mapsto> ?nm)))"
      unfolding Cons True matches_pattern_bracket by (auto split: if_splits)
    from matches_call_tail_sound[OF mem] obtain body where
      b: "dropWhile name_char r = ''{'' @ body @ ''}]'' @ s'" "\<forall>c\<in>set body. not_newline c"
         "g' = g(1 \<mapsto> ?nm, 2 \<mapsto> ''{'' @ body @ ''}'')"
      by blast
    have "r = ?nm @ dropWhile name_char r" by simp
    then have "s = ''['' @ ?nm @ ''{'' @ body @ ''}]'' @ s'"
      using Cons True b(1) by simp
    moreover have "\<forall>c\<in>set ?nm. name_char c" by (auto dest: set_takeWhileD)
    ultimately show ?thesis using ne b(2,3) by blast
  qed
qed

lemma re_search_sound:
  "re_search r s = Some g \<Longrightarrow> \<exists>pre s1 s'. s = pre @ s1 \<and> (s', g) \<in> set (matches r (s1, Map.empty))"
proof (induction r s rule: re_search.induct)
  case (1 r)
  then show ?case by (auto split: list.splits)
next
  case (2 r c cs)
  show ?case
  proof (cases "matches r (c # cs, Map.empty)")
    case Nil
    with 2 obtain pre s1 s' where "cs = pre @ s1" "(s', g) \<in> set (matches r (s1, Map.empty))"
      by auto
    then have "c # cs = (c # pre) @ s1" by simp
    then show ?thesis using \<open>(s', g) \<in> set (matches r (s1, Map.empty))\<close> by blast
  next
    case (Cons x xs)
    with 2(2) have "x = (fst x, g)" by (cases x) auto
    then have "(fst x, g) \<in> set (matches r (c # cs, Map.empty))" using Cons by simp
    then show ?thesis by (metis append_Nil)
  qed
qed

lemma re_search_skip:
  "CHR ''['' \<notin> set pre \<Longrightarrow> re_search tool_call_pattern (pre @ s) = re_search tool_call_pattern s"
proof (induction pre)
  case Nil
  show ?case by simp
next
  case (Cons c pre)
  then have "c \<noteq> CHR ''[''" by auto
  then have "matches tool_call_pattern (c # pre @ s, Map.empty) = []"
    using matches_pattern_other[of "c # pre @ s" Map.empty] by simp
  then show ?case using Cons by simp
qed

lemma filter_rev_upt_head:
  assumes "k0 \<le> n" "Q k0" "\<And>k. k0 < k \<Longrightarrow> k \<le> n \<Longrightarrow> \<not> Q k"
  shows "filter Q (rev [0..<Suc n]) = k0 # filter Q (rev [0..<k0])"
proof -
  have "[0..<k0 + (Suc n - k0)] = [0..<k0] @ [k0..<k0 + (Suc n - k0)]"
    by (rule upt_add_eq_append) simp
  moreover have "k0 + (Suc n - k0) = Suc n" using assms(1) by simp
  moreover have "[k0..<Suc n] = k0 # [Suc k0..<Suc n]"
    using assms(1) by (simp add: upt_conv_Cons del: upt_Suc)
  ultimately have "[0..<Suc n] = [0..<k0] @ k0 # [Suc k0..<Suc n]"
    by simp
  moreover have "filter Q (rev [Suc k0..<Suc n]) = []"
    using assms(3) by (auto simp: filter_empty_conv simp del: upt_Suc)
  ultimately show ?thesis using assms(2) by (simp del: upt_Suc)
qed


lemma brace_bracket_in_line:
  assumes "j \<le> length (takeWhile not_newline post)" "Suc j < length post"
      "post ! j = CHR ''}''" "post ! Suc j = CHR '']''"
  shows "sublist ''}]'' (takeWhile not_newline post)"
proof -
  let ?m = "length (takeWhile not_newline post)"
  have stop: "?m < length post \<Longrightarrow> \<not> not_newline (post ! ?m)"
    by (rule nth_length_takeWhile)
  have "not_newline (post ! j)" "not_newline (post ! Suc j)" using assms(3,4) by (simp_all add: not_newline_def)
  then have "j \<noteq> ?m" "Suc j \<noteq> ?m" using stop assms(2) by auto
  then have lt: "Suc j < ?m" using assms(1) by simp
  have tw: "takeWhile not_newline post ! j = CHR ''}''" "takeWhile not_newline post ! Suc j = CHR '']''"
    using lt assms(3,4) by (simp_all add: takeWhile_nth)
  have "takeWhile not_newline post = take j (takeWhile not_newline post) @ takeWhile not_newline post ! j # drop (Suc j) (takeWhile not_newline post)"
    using lt by (simp add: id_take_nth_drop[symmetric])
  moreover have "drop (Suc j) (takeWhile not_newline post) = takeWhile not_newline post ! Suc j # drop (Suc (Suc j)) (takeWhile not_newline post)"
    using lt by (simp add: Cons_nth_drop_Suc)
  ultimately have "takeWhile not_newline post = take j (takeWhile not_newline post) @ ''}]'' @ drop (Suc (Suc j)) (takeWhile not_newline post)"
    using tw by simp
  then show ?thesis unfolding sublist_def by blast
qed

lemma matches_call_tail_greedy:
  assumes body: "\<forall>c\<in>set body. not_newline c"
      and post: "\<not> sublist ''}]'' (takeWhile not_newline post)"
  shows "\<exists>rest. matches call_tail (''{'' @ body @ ''}]'' @ post, g) =
           (post, g(2 \<mapsto> ''{'' @ body @ ''}'')) # rest"
proof -
  define r where "r = body @ ''}]'' @ post"
  define Q where "Q = (\<lambda>k. Suc k < length r \<and> r ! k = CHR ''}'' \<and> r ! Suc k = CHR '']'')"
  let ?k0 = "length body"
  let ?n = "length (takeWhile not_newline r)"
  have tw: "takeWhile not_newline r = body @ ''}]'' @ takeWhile not_newline post"
    using body by (simp add: r_def takeWhile_append2 not_newline_def)
  have le: "?k0 \<le> ?n" by (simp add: tw)
  have Q0: "Q ?k0" by (simp add: Q_def r_def nth_append)
  have above: "\<not> Q k" if "?k0 < k" "k \<le> ?n" for k
  proof
    assume Qk: "Q k"
    show False
    proof (cases "k = Suc ?k0")
      case True
      then show False using Qk by (simp add: Q_def r_def nth_append)
    next
      case False
      define j where "j = k - ?k0 - 2"
      have k: "k = ?k0 + 2 + j" using that(1) False by (simp add: j_def)
      have "j \<le> length (takeWhile not_newline post)" using that(2) by (simp add: tw k)
      moreover have "Suc j < length post" "post ! j = CHR ''}''" "post ! Suc j = CHR '']''"
        using Qk by (simp_all add: Q_def r_def k nth_append)
      ultimately show False using post brace_bracket_in_line by blast
    qed
  qed
  have "filter Q (rev [0..<Suc ?n]) = ?k0 # filter Q (rev [0..<?k0])"
    using le Q0 above by (rule filter_rev_upt_head)
  then have "matches call_tail (CHR ''{'' # r, g) =
      (drop (Suc (Suc ?k0)) r, g(2 \<mapsto> CHR ''{'' # take (Suc ?k0) r)) #
      map (\<lambda>k. (drop (Suc (Suc k)) r, g(2 \<mapsto> CHR ''{'' # take (Suc k) r))) (filter Q (rev [0..<?k0]))"
    unfolding matches_call_tail_brace Q_def by (simp del: upt_Suc)
  moreover have "drop (Suc (Suc ?k0)) r = post" "take (Suc ?k0) r = body @ ''}''"
    by (simp_all add: r_def)
  ultimately show ?thesis by (simp add: r_def)
qed

lemma matches_pattern_greedy:
  assumes nm: "nm \<noteq> []" "\<forall>c\<in>set nm. name_char c"
      and body: "\<forall>c\<in>set body. not_newline c"
      and post: "\<not> sublist ''}]'' (takeWhile not_newline post)"
  shows "\<exists>rest. matches tool_call_pattern (''['' @ nm @ ''{'' @ body @ ''}]'' @ post, g) =
           (post, g(1 \<mapsto> nm, 2 \<mapsto> ''{'' @ body @ ''}'')) # rest"
proof -
  let ?t = "''{'' @ body @ ''}]'' @ post"
  have tw: "takeWhile name_char (nm @ ?t) = nm"
    using nm(2) not_name_char_brace by (simp add: takeWhile_append2)
  have dw: "dropWhile name_char (nm @ ?t) = ?t"
    using nm(2) not_name_char_brace by (simp add: dropWhile_append2)
  have "matches tool_call_pattern (CHR ''['' # (nm @ ?t), g) =
      matches call_tail (?t, g(1 \<mapsto> nm))"
    unfolding matches_pattern_bracket tw dw using nm(1) by simp
  then show ?thesis
    using matches_call_tail_greedy[OF body post, of "g(1 \<mapsto> nm)"] by simp
qed

lemma re_search_greedy:
  assumes pre: "CHR ''['' \<notin> set pre"
      and nm: "nm \<noteq> []" "\<forall>c\<in>set nm. name_char c"
      and body: "\<forall>c\<in>set body. not_newline c"
      and post: "\<not> sublist ''}]'' (takeWhile not_newline post)"
  shows "re_search tool_call_pattern (pre @ ''['' @ nm @ ''{'' @ body @ ''}]'' @ post) =
           Some [1 \<mapsto> nm, 2 \<mapsto> ''{'' @ body @ ''}'']"
proof -
  obtain rest where
    "matches tool_call_pattern (''['' @ nm @ ''{'' @ body @ ''}]'' @ post, Map.empty) =
       (post, [1 \<mapsto> nm, 2 \<mapsto> ''{'' @ body @ ''}'']) # rest"
    using matches_pattern_greedy[OF nm body post, of Map.empty] by blast
  then have "re_search tool_call_pattern (''['' @ nm @ ''{'' @ body @ ''}]'' @ post) =
      Some [1 \<mapsto> nm, 2 \<mapsto> ''{'' @ body @ ''}'']"
    by simp
  then show ?thesis using re_search_skip[OF pre] by simp
qed

lemma matches_call_tail_complete:
  assumes "\<forall>c\<in>set body. not_newline c"
  shows "matches call_tail (''{'' @ body @ ''}]'' @ post, g) \<noteq> []"
proof -
  define r where "r = body @ ''}]'' @ post"
  let ?Q = "\<lambda>k. Suc k < length r \<and> r ! k = CHR ''}'' \<and> r ! Suc k = CHR '']''"
  have "takeWhile not_newline r = body @ ''}]'' @ takeWhile not_newline post"
    using assms by (simp add: r_def takeWhile_append2 not_newline_def)
  then have "length body \<in> set (rev [0..<Suc (length (takeWhile not_newline r))])"
    by (simp del: upt_Suc)
  moreover have "?Q (length body)" by (simp add: r_def nth_append)
  ultimately have "filter ?Q (rev [0..<Suc (length (takeWhile not_newline r))]) \<noteq> []"
    unfolding filter_empty_conv by blast
  then have "matches call_tail (CHR ''{'' # r, g) \<noteq> []"
    unfolding matches_call_tail_brace by (simp del: upt_Suc)
  then show ?thesis by (simp add: r_def)
qed

lemma matches_pattern_complete:
  assumes "nm \<noteq> []" "\<forall>c\<in>set nm. name_char c" "\<forall>c\<in>set body. not_newline c"
  shows "matches tool_call_pattern (''['' @ nm @ ''{'' @ body @ ''}]'' @ post, g) \<noteq> []"
proof -
  let ?t = "''{'' @ body @ ''}]'' @ post"
  have tw: "takeWhile name_char (nm @ ?t) = nm"
    using assms(2) not_name_char_brace by (simp add: takeWhile_append2)
  have dw: "dropWhile name_char (nm @ ?t) = ?t"
    using assms(2) not_name_char_brace by (simp add: dropWhile_append2)
  have "matches tool_call_pattern (CHR ''['' # (nm @ ?t), g) =
      matches call_tail (?t, g(1 \<mapsto> nm))"
    unfolding matches_pattern_bracket tw dw using assms(1) by simp
  then show ?thesis
    using matches_call_tail_complete[OF assms(3), of post "g(1 \<mapsto> nm)"] by simp
qed

lemma re_search_complete:
  "matches r (s, Map.empty) \<noteq> [] \<Longrightarrow> re_search r (pre @ s) \<noteq> None"
proof (induction pre)
  case Nil
  then show ?case by (cases s) (auto split: list.splits)
next
  case (Cons c pre)
  then show ?case by (auto split: list.splits)
qed

text \<open>
  A reply holds a bracketed call when some substring has the shape of the pattern: an
  opening bracket, a non-empty tool name, and braces around text without a line feed,
  closed by a bracket. The search finds a match exactly when the reply holds one.
\<close>

lemma not_newline_iff: "(\<forall>c\<in>set body. not_newline c) \<longleftrightarrow> (\<forall>c\<in>set body. c \<noteq> CHR 0x0A)"
  by (simp add: not_newline_def)

lemma re_search_Some_shape:
  assumes "re_search tool_call_pattern s = Some g"
  shows "\<exists>pre nm body post. s = pre @ ''['' @ nm @ ''{'' @ body @ ''}]'' @ post
          \<and> nm \<noteq> [] \<and> (\<forall>c\<in>set nm. name_char c) \<and> (\<forall>c\<in>set body. c \<noteq> CHR 0x0A)"
proof -
  from re_search_sound[OF assms] obtain pre s1 s' where
    s: "s = pre @ s1" and m: "(s', g) \<in> set (matches tool_call_pattern (s1, Map.empty))" by blast
  from matches_pattern_sound[OF m] obtain nm body where
    s1: "s1 = ''['' @ nm @ ''{'' @ body @ ''}]'' @ s'" and n: "nm \<noteq> []" "\<forall>c\<in>set nm. name_char c"
    and b: "\<forall>c\<in>set body. not_newline c"
    by blast
  have "s = pre @ ''['' @ nm @ ''{'' @ body @ ''}]'' @ s'" using s s1 by simp
  moreover have "\<forall>c\<in>set body. c \<noteq> CHR 0x0A" using b by (simp add: not_newline_def)
  ultimately show ?thesis using n by blast
qed

lemma re_search_shape_Some:
  assumes "s = pre @ ''['' @ nm @ ''{'' @ body @ ''}]'' @ post"
      "nm \<noteq> []" "\<forall>c\<in>set nm. name_char c" "\<forall>c\<in>set body. c \<noteq> CHR 0x0A"
  shows "re_search tool_call_pattern s \<noteq> None"
proof -
  have b: "\<forall>c\<in>set body. not_newline c" using assms(4) by (simp add: not_newline_def)
  have "re_search tool_call_pattern (pre @ ''['' @ nm @ ''{'' @ body @ ''}]'' @ post) \<noteq> None"
    by (rule re_search_complete) (rule matches_pattern_complete[OF assms(2,3) b])
  then show ?thesis using assms(1) by simp
qed

text \<open>
  The search skips every position at which the pattern does not match, so it returns the
  earliest substring of the pattern's form, extended to the last \<^verbatim>\<open>}]\<close> of its line.
\<close>

lemma re_search_skip_unmatched:
  "\<forall>i<length pre. matches r (drop i (pre @ s), Map.empty) = [] \<Longrightarrow> re_search r (pre @ s) = re_search r s"
proof (induction pre)
  case Nil
  show ?case by simp
next
  case (Cons c pre)
  from Cons.prems have "matches r (drop 0 ((c # pre) @ s), Map.empty) = []" by blast
  then have here: "matches r (c # pre @ s, Map.empty) = []" by simp
  have "\<forall>i<length pre. matches r (drop i (pre @ s), Map.empty) = []"
  proof (intro allI impI)
    fix i assume "i < length pre"
    then have "Suc i < length (c # pre)" by simp
    with Cons.prems have "matches r (drop (Suc i) ((c # pre) @ s), Map.empty) = []" by blast
    then show "matches r (drop i (pre @ s), Map.empty) = []" by simp
  qed
  with Cons.IH have "re_search r (pre @ s) = re_search r s" by simp
  with here show ?case by simp
qed

lemma no_earlier_call_unmatched:
  assumes "\<not> (\<exists>p nm' body' post'. c = p @ ''['' @ nm' @ ''{'' @ body' @ ''}]'' @ post' \<and> length p < n
                 \<and> nm' \<noteq> [] \<and> (\<forall>x\<in>set nm'. name_char x) \<and> (\<forall>x\<in>set body'. not_newline x))"
      and "n \<le> length c"
  shows "\<forall>i<n. matches tool_call_pattern (drop i c, Map.empty) = []"
proof (intro allI impI)
  fix i assume i: "i < n"
  show "matches tool_call_pattern (drop i c, Map.empty) = []"
  proof (rule ccontr)
    assume "matches tool_call_pattern (drop i c, Map.empty) \<noteq> []"
    then obtain s' g' where "(s', g') \<in> set (matches tool_call_pattern (drop i c, Map.empty))"
      by (cases "matches tool_call_pattern (drop i c, Map.empty)") auto
    from matches_pattern_sound[OF this] obtain nm' body' where
      d: "drop i c = ''['' @ nm' @ ''{'' @ body' @ ''}]'' @ s'" and
      n: "nm' \<noteq> []" "\<forall>x\<in>set nm'. name_char x" "\<forall>x\<in>set body'. not_newline x"
      by blast
    have "c = take i c @ drop i c" by simp
    with d have "c = take i c @ ''['' @ nm' @ ''{'' @ body' @ ''}]'' @ s'" by simp
    moreover have "length (take i c) < n" using i assms(2) by simp
    ultimately show False using assms(1) n by blast
  qed
qed

lemma re_search_leftmost_greedy:
  assumes c: "c = pre @ ''['' @ nm @ ''{'' @ body @ ''}]'' @ post"
      and first: "\<not> (\<exists>p nm' body' post'. c = p @ ''['' @ nm' @ ''{'' @ body' @ ''}]'' @ post' \<and> length p < length pre
                 \<and> nm' \<noteq> [] \<and> (\<forall>x\<in>set nm'. name_char x) \<and> (\<forall>x\<in>set body'. not_newline x))"
      and nm: "nm \<noteq> []" "\<forall>x\<in>set nm. name_char x"
      and body: "\<forall>x\<in>set body. not_newline x"
      and post: "\<not> sublist ''}]'' (takeWhile not_newline post)"
  shows "re_search tool_call_pattern c = Some [1 \<mapsto> nm, 2 \<mapsto> ''{'' @ body @ ''}'']"
proof -
  let ?s = "''['' @ nm @ ''{'' @ body @ ''}]'' @ post"
  have "length pre \<le> length c" using c by simp
  with first have "\<forall>i<length pre. matches tool_call_pattern (drop i c, Map.empty) = []"
    by (rule no_earlier_call_unmatched)
  then have "re_search tool_call_pattern (pre @ ?s) = re_search tool_call_pattern ?s"
    unfolding c by (rule re_search_skip_unmatched)
  moreover have "re_search tool_call_pattern ([] @ ?s) = Some [1 \<mapsto> nm, 2 \<mapsto> ''{'' @ body @ ''}'']"
    by (rule re_search_greedy[OF _ nm body post]) simp
  ultimately show ?thesis using c by simp
qed

lemma no_bracket_no_earlier_call:
  assumes "CHR ''['' \<notin> set pre"
  shows "\<not> (\<exists>p nm' body' post'. pre @ s = p @ ''['' @ nm' @ ''{'' @ body' @ ''}]'' @ post' \<and> length p < length pre
                 \<and> nm' \<noteq> [] \<and> (\<forall>x\<in>set nm'. name_char x) \<and> (\<forall>x\<in>set body'. not_newline x))"
proof
  assume "\<exists>p nm' body' post'. pre @ s = p @ ''['' @ nm' @ ''{'' @ body' @ ''}]'' @ post' \<and> length p < length pre
                 \<and> nm' \<noteq> [] \<and> (\<forall>x\<in>set nm'. name_char x) \<and> (\<forall>x\<in>set body'. not_newline x)"
  then obtain p t where e: "pre @ s = p @ CHR ''['' # t" and l: "length p < length pre" by auto
  from e have "(pre @ s) ! length p = CHR ''[''" by (metis nth_append_length)
  with l have "pre ! length p = CHR ''[''" by (simp add: nth_append)
  with l assms show False by (metis nth_mem)
qed

lemma unmatched_no_earlier_call:
  assumes "\<forall>i<n. matches tool_call_pattern (drop i c, Map.empty) = []"
  shows "\<not> (\<exists>p nm' body' post'.
            c = p @ ''['' @ nm' @ ''{'' @ body' @ ''}]'' @ post' \<and> length p < n
            \<and> nm' \<noteq> [] \<and> (\<forall>x\<in>set nm'. name_char x) \<and> (\<forall>x\<in>set body'. not_newline x))"
proof
  assume "\<exists>p nm' body' post'.
            c = p @ ''['' @ nm' @ ''{'' @ body' @ ''}]'' @ post' \<and> length p < n
            \<and> nm' \<noteq> [] \<and> (\<forall>x\<in>set nm'. name_char x) \<and> (\<forall>x\<in>set body'. not_newline x)"
  then obtain p nm' body' post' where
    c: "c = p @ ''['' @ nm' @ ''{'' @ body' @ ''}]'' @ post'" and p: "length p < n"
    and s: "nm' \<noteq> []" "\<forall>x\<in>set nm'. name_char x" "\<forall>x\<in>set body'. not_newline x"
    by blast
  from c have "drop (length p) c = ''['' @ nm' @ ''{'' @ body' @ ''}]'' @ post'" by simp
  with matches_pattern_complete[OF s, of post' Map.empty]
  have "matches tool_call_pattern (drop (length p) c, Map.empty) \<noteq> []" by simp
  with assms p show False by blast
qed

section \<open>The extractor: claims\<close>

text \<open>
  C7: a reply whose content has no substring matching the bracketed tool-call pattern
  makes \<open>get_function_and_payload\<close> return \<open>(None, None)\<close>, whatever the literal
  evaluator is, without raising.
\<close>

theorem no_call_returns_none:
  assumes "\<not> (\<exists>pre nm body post.
              content r = pre @ ''['' @ nm @ ''{'' @ body @ ''}]'' @ post
              \<and> nm \<noteq> [] \<and> (\<forall>c\<in>set nm. name_char c) \<and> (\<forall>c\<in>set body. c \<noteq> CHR 0x0A))"
  shows "get_function_and_payload lit r = Inr (None, None)"
proof (cases "re_search tool_call_pattern (content r)")
  case None
  then show ?thesis by (simp add: get_function_and_payload_def)
next
  case (Some g)
  from re_search_Some_shape[OF this] assms show ?thesis by simp
qed

theorem no_call_returns_none_witness:
  "get_function_and_payload literal_eval (reply ''I can record [meetings] {soon}.'') = Inr (None, None)"
proof (rule no_call_returns_none)
  have none: "re_search tool_call_pattern ''I can record [meetings] {soon}.'' = None"
    by code_simp
  show "\<not> (\<exists>pre nm body post.
      content (reply ''I can record [meetings] {soon}.'') = pre @ ''['' @ nm @ ''{'' @ body @ ''}]'' @ post
      \<and> nm \<noteq> [] \<and> (\<forall>c\<in>set nm. name_char c) \<and> (\<forall>c\<in>set body. c \<noteq> CHR 0x0A))"
  proof
    assume "\<exists>pre nm body post.
      content (reply ''I can record [meetings] {soon}.'') = pre @ ''['' @ nm @ ''{'' @ body @ ''}]'' @ post
      \<and> nm \<noteq> [] \<and> (\<forall>c\<in>set nm. name_char c) \<and> (\<forall>c\<in>set body. c \<noteq> CHR 0x0A)"
    then obtain pre nm body post where
      "''I can record [meetings] {soon}.'' = pre @ ''['' @ nm @ ''{'' @ body @ ''}]'' @ post"
      "nm \<noteq> []" "\<forall>c\<in>set nm. name_char c" "\<forall>c\<in>set body. c \<noteq> CHR 0x0A"
      unfolding reply_def chat_response.simps by (elim exE conjE)
    from re_search_shape_Some[OF this] none show False by simp
  qed
qed



text \<open>
  When the bracketed call is the earliest substring of the pattern's form and is followed, up
  to the next line feed, by no further \<^verbatim>\<open>}]\<close>, the pattern matches exactly that call, and
  the extractor hands its brace-delimited part to the literal evaluator.
\<close>

lemma extractor_on_call:
  assumes "content r = pre @ ''['' @ nm @ ''{'' @ body @ ''}]'' @ post"
      and "nm \<noteq> []" "\<forall>c\<in>set nm. name_char c"
      and "\<forall>c\<in>set body. not_newline c"
      and "\<not> (\<exists>p nm' body' post'.
                content r = p @ ''['' @ nm' @ ''{'' @ body' @ ''}]'' @ post' \<and> length p < length pre
                \<and> nm' \<noteq> [] \<and> (\<forall>c\<in>set nm'. name_char c) \<and> (\<forall>c\<in>set body'. not_newline c))"
      and "\<not> sublist ''}]'' (takeWhile not_newline post)"
  shows "get_function_and_payload lit r =
           (case lit (''{'' @ body @ ''}'') of Inl e \<Rightarrow> Inl e | Inr v \<Rightarrow> Inr (Some nm, Some v))"
proof -
  define m :: groups where "m = [1 \<mapsto> nm, 2 \<mapsto> ''{'' @ body @ ''}'']"
  have "re_search tool_call_pattern (content r) = Some m"
    unfolding m_def by (rule re_search_leftmost_greedy[OF assms(1) assms(5) assms(2-4) assms(6)])
  moreover have "m 1 = Some nm" "m 2 = Some (''{'' @ body @ ''}'')"
    by (simp_all add: m_def)
  ultimately show ?thesis
    by (simp add: get_function_and_payload_def split: sum.splits)
qed

text \<open>
  C2, as stated, fails: the reply \<^verbatim>\<open>[a{'x': 1}] [{}]\<close> has exactly one well-formed
  bracketed call, yet the extractor raises. The greedy \<^verbatim>\<open>.*\<close> extends the match to the
  last \<^verbatim>\<open>}]\<close> of the line, so the text \<^verbatim>\<open>{'x': 1}] [{}\<close> reaches the literal evaluator.
\<close>

theorem single_call_counterexample:
  "well_formed_calls literal_eval ''[a{'x': 1}] [{}]'' = [(''a'', PyDict [(PyStr ''x'', PyInt 1)])]
   \<and> get_function_and_payload literal_eval (reply ''[a{'x': 1}] [{}]'') = Inl LiteralError"
  by code_simp

text \<open>
  C2, amended: for every reply that holds a bracketed call \<^verbatim>\<open>[name{...}]\<close>, with a
  non-empty name over \<^verbatim>\<open>[A-Za-z0-9_-]\<close> and no line feed between the braces, such that no
  substring of that form starts earlier in the reply and no \<^verbatim>\<open>}]\<close> follows the call on
  its line, and whose brace-delimited part is a valid literal, the extractor returns that
  name and the value of the literal, whatever prose or tags surround the call.
\<close>

theorem single_call_extracted:
  assumes "content r = pre @ ''['' @ nm @ ''{'' @ body @ ''}]'' @ post"
      and "nm \<noteq> []" "\<forall>c\<in>set nm. name_char c"
      and "\<forall>c\<in>set body. not_newline c"
      and "\<not> (\<exists>p nm' body' post'.
                content r = p @ ''['' @ nm' @ ''{'' @ body' @ ''}]'' @ post' \<and> length p < length pre
                \<and> nm' \<noteq> [] \<and> (\<forall>c\<in>set nm'. name_char c) \<and> (\<forall>c\<in>set body'. not_newline c))"
      and "\<not> sublist ''}]'' (takeWhile not_newline post)"
      and "lit (''{'' @ body @ ''}'') = Inr v"
  shows "get_function_and_payload lit r = Inr (Some nm, Some v)"
  using extractor_on_call[OF assms(1-6), of lit] assms(7) by simp

text \<open>
  C2, witness: the finishing call of the specification, wrapped in the tool-call tags and
  preceded by prose with brackets of its own.
\<close>

theorem single_call_extracted_witness:
  "get_function_and_payload literal_eval
     (reply ''[done] <TOOLCALL>[xpfinish-agent-execution-finished{'bodyParams': {'result': 'ok', 'is_success': True}}]</TOOLCALL>'')
   = Inr (Some ''xpfinish-agent-execution-finished'',
          Some (PyDict [(PyStr ''bodyParams'',
                  PyDict [(PyStr ''result'', PyStr ''ok''), (PyStr ''is_success'', PyBool True)])]))"
proof -
  let ?c = "''[done] <TOOLCALL>[xpfinish-agent-execution-finished{'bodyParams': {'result': 'ok', 'is_success': True}}]</TOOLCALL>''"
  let ?pre = "''[done] <TOOLCALL>''"
  let ?nm = "''xpfinish-agent-execution-finished''"
  let ?body = "'''bodyParams': {'result': 'ok', 'is_success': True}''"
  let ?post = "''</TOOLCALL>''"
  have c: "content (reply ?c) = ?pre @ ''['' @ ?nm @ ''{'' @ ?body @ ''}]'' @ ?post"
    by (simp add: reply_def)
  have nm: "?nm \<noteq> []" "\<forall>c\<in>set ?nm. name_char c" by (simp_all add: name_char_def)
  have body: "\<forall>c\<in>set ?body. not_newline c" by (simp add: not_newline_def)
  have first: "\<not> (\<exists>p nm' body' post'.
      content (reply ?c) = p @ ''['' @ nm' @ ''{'' @ body' @ ''}]'' @ post' \<and> length p < length ?pre
      \<and> nm' \<noteq> [] \<and> (\<forall>c\<in>set nm'. name_char c) \<and> (\<forall>c\<in>set body'. not_newline c))"
  proof -
    have "\<forall>i<length ?pre. matches tool_call_pattern (drop i ?c, Map.empty) = []"
      by (simp add: All_less_Suc2 numeral_eq_Suc matches_pattern_bracket matches_pattern_other
            name_char_def matches_call_tail_other del: matches.simps)
    then show ?thesis unfolding reply_def chat_response.simps by (rule unmatched_no_earlier_call)
  qed
  have post: "\<not> sublist ''}]'' (takeWhile not_newline ?post)"
    by (simp add: not_newline_def sublist_Cons_right)
  have lit: "literal_eval (''{'' @ ?body @ ''}'')
      = Inr (PyDict [(PyStr ''bodyParams'',
                  PyDict [(PyStr ''result'', PyStr ''ok''), (PyStr ''is_success'', PyBool True)])])"
    by code_simp
  show ?thesis
    by (rule single_call_extracted[where lit = literal_eval and pre = ?pre and nm = ?nm and body = ?body
          and post = ?post, OF c nm body first post lit])
qed

text \<open>
  C5: when the bracketed substring matched in the reply has a brace-delimited part that
  the literal evaluator rejects, the extractor raises that error to its caller; its result
  is not the no-match result \<open>(None, None)\<close>.
\<close>

theorem malformed_literal_raises:
  assumes "re_search tool_call_pattern (content r) = Some m"
      and "m 2 = Some payload_str"
      and "lit payload_str = Inl e"
  shows "get_function_and_payload lit r = Inl e \<and> get_function_and_payload lit r \<noteq> Inr (None, None)"
  using assms by (simp add: get_function_and_payload_def)

text \<open>C5, witness: the reply \<^verbatim>\<open>[foo{not valid}]\<close> of the specification.\<close>

theorem malformed_literal_raises_witness:
  "get_function_and_payload literal_eval (reply ''[foo{not valid}]'') = Inl LiteralError
   \<and> get_function_and_payload literal_eval (reply ''[foo{not valid}]'') \<noteq> Inr (None, None)"
proof (rule malformed_literal_raises[where m = "[1 \<mapsto> ''foo'', 2 \<mapsto> ''{not valid}'']"
        and payload_str = "''{not valid}''"])
  show "re_search tool_call_pattern (content (reply ''[foo{not valid}]''))
      = Some [1 \<mapsto> ''foo'', 2 \<mapsto> ''{not valid}'']"
    by (simp add: reply_def tool_call_pattern_def RPlus_def name_char_def not_newline_def)
  show "[1 \<mapsto> ''foo'', 2 \<mapsto> ''{not valid}''] 2 = Some ''{not valid}''" by simp
  show "literal_eval ''{not valid}'' = Inl LiteralError" by code_simp
qed

text \<open>
  C6, as stated, fails: the reply \<^verbatim>\<open>[a{'x': 1}] [b{'y': 2}]\<close> holds two well-formed
  bracketed calls on one line. The match runs from the first opening bracket to the last
  \<^verbatim>\<open>}]\<close>, the text \<^verbatim>\<open>{'x': 1}] [b{'y': 2}\<close> reaches the literal evaluator, and the extractor
  raises instead of returning the first call.
\<close>

theorem two_calls_counterexample:
  "well_formed_calls literal_eval ''[a{'x': 1}] [b{'y': 2}]''
     = [(''a'', PyDict [(PyStr ''x'', PyInt 1)]), (''b'', PyDict [(PyStr ''y'', PyInt 2)])]
   \<and> get_function_and_payload literal_eval (reply ''[a{'x': 1}] [b{'y': 2}]'') = Inl LiteralError"
  by code_simp

text \<open>
  C6, amended: for every reply that holds two bracketed calls, the first being the earliest
  substring of the pattern's form and a valid literal between its braces, with a line feed
  between the two calls and no \<^verbatim>\<open>}]\<close> between the first call and the end of its line, the
  extractor returns the name and the payload of the first call only; the second is
  ignored, whatever it is.
\<close>

theorem first_of_two_calls:
  assumes "content r = pre @ ''['' @ name_a @ ''{'' @ body_a @ ''}]'' @ mid
                         @ ''['' @ name_b @ ''{'' @ body_b @ ''}]'' @ post"
      and "name_a \<noteq> []" "\<forall>c\<in>set name_a. name_char c"
      and "\<forall>c\<in>set body_a. not_newline c"
      and "\<not> (\<exists>p nm' body' post'.
                content r = p @ ''['' @ nm' @ ''{'' @ body' @ ''}]'' @ post' \<and> length p < length pre
                \<and> nm' \<noteq> [] \<and> (\<forall>c\<in>set nm'. name_char c) \<and> (\<forall>c\<in>set body'. not_newline c))"
      and "CHR 0x0A \<in> set mid"
      and "\<not> sublist ''}]'' (takeWhile not_newline mid)"
      and "lit (''{'' @ body_a @ ''}'') = Inr v_a"
  shows "get_function_and_payload lit r = Inr (Some name_a, Some v_a)"
proof -
  let ?post = "mid @ ''['' @ name_b @ ''{'' @ body_b @ ''}]'' @ post"
  have "takeWhile not_newline ?post = takeWhile not_newline mid"
    using assms(6) by (intro takeWhile_append1[of "CHR 0x0A"]) (simp_all add: not_newline_def)
  then have "\<not> sublist ''}]'' (takeWhile not_newline ?post)" using assms(7) by simp
  moreover have "content r = pre @ ''['' @ name_a @ ''{'' @ body_a @ ''}]'' @ ?post"
    using assms(1) by simp
  ultimately show ?thesis
    using extractor_on_call[OF _ assms(2-5), of ?post lit] assms(8) by simp
qed

text \<open>C6, witness: two calls on two lines.\<close>

theorem first_of_two_calls_witness:
  "get_function_and_payload literal_eval
     (reply (''First: [a{'x': 1}]'' @ [CHR 0x0A] @ ''then: [b{'y': 2}]''))
     = Inr (Some ''a'', Some (PyDict [(PyStr ''x'', PyInt 1)]))"
proof -
  let ?c = "''First: [a{'x': 1}]'' @ [CHR 0x0A] @ ''then: [b{'y': 2}]''"
  let ?pre = "''First: ''"
  let ?mid = "[CHR 0x0A] @ ''then: ''"
  have c: "content (reply ?c)
      = ?pre @ ''['' @ ''a'' @ ''{'' @ '''x': 1'' @ ''}]'' @ ?mid @ ''['' @ ''b'' @ ''{'' @ '''y': 2'' @ ''}]'' @ []"
    by (simp add: reply_def)
  have nm: "''a'' \<noteq> []" "\<forall>c\<in>set ''a''. name_char c" by (simp_all add: name_char_def)
  have body: "\<forall>c\<in>set '''x': 1''. not_newline c" by (simp add: not_newline_def)
  have first: "\<not> (\<exists>p nm' body' post'.
      content (reply ?c) = p @ ''['' @ nm' @ ''{'' @ body' @ ''}]'' @ post' \<and> length p < length ?pre
      \<and> nm' \<noteq> [] \<and> (\<forall>c\<in>set nm'. name_char c) \<and> (\<forall>c\<in>set body'. not_newline c))"
    unfolding c by (rule no_bracket_no_earlier_call) simp
  have mid: "CHR 0x0A \<in> set ?mid" "\<not> sublist ''}]'' (takeWhile not_newline ?mid)"
    by (simp_all add: not_newline_def)
  have lit: "literal_eval (''{'' @ '''x': 1'' @ ''}'') = Inr (PyDict [(PyStr ''x'', PyInt 1)])"
    by code_simp
  show ?thesis
    by (rule first_of_two_calls[where lit = literal_eval and pre = ?pre and name_a = "''a''"
          and body_a = "'''x': 1''" and mid = ?mid and name_b = "''b''" and body_b = "'''y': 2''"
          and post = "[]", OF c nm body first mid lit])
qed

section \<open>The driver: one iteration and the loop\<close>

lemma scan_responses:
  "foldl (\<lambda>fin response. if py_str (function_name response) = sentinel then True else fin) b rs
     = (b \<or> (\<exists>r\<in>set rs. py_str (function_name r) = sentinel))"
  by (induction rs arbitrary: b) auto

lemma then_doE:
  assumes "then_do m k st = (Inr y, st2)"
  obtains x st1 where "m st = (Inr x, st1)" "k x st1 = (Inr y, st2)"
  using assms by (cases "m st") (auto simp: then_do_def split: sum.splits)

lemma remote_eq:
  "remote rq answer st = (r, st1) \<longleftrightarrow>
     r = answer (sent st @ [rq]) \<and> st1 = st\<lparr>sent := sent st @ [rq]\<rparr>"
  by (auto simp: remote_def Let_def)

lemma next_tool_calls_Inr:
  assumes "next_tool_calls lit env st = (Inr tool_calls, st1)"
  shows "\<exists>response tool_name pl.
           completions_create env (sent st @ [ChatCompletionsCreate ''nvidia/llama-3.1-nemotron-ultra-253b-v1'']) = Inr response
         \<and> get_function_and_payload lit response = Inr (tool_name, pl)
         \<and> tool_calls = [\<lparr>name = tool_name, call_type = XPANDER, payload = pl,
                tool_call_id = ''call_'' @ decimal (100000 + randint env (sent st1) mod 900000)\<rparr>]
         \<and> sent st1 = sent st @ [ChatCompletionsCreate ''nvidia/llama-3.1-nemotron-ultra-253b-v1'',
                                  ReportLlmUsage response, AddResponse response]
         \<and> is_finished st1 = is_finished st"
  using assms unfolding next_tool_calls_def
  by (elim then_doE) (auto simp: remote_eq split: prod.splits)

lemma next_tool_calls_log:
  "prefix (sent st) (sent (snd (next_tool_calls lit env st)))
   \<and> is_finished (snd (next_tool_calls lit env st)) = is_finished st"
  unfolding next_tool_calls_def then_do_def remote_def
  by (simp add: Let_def split: sum.splits prod.splits)

lemma run_tool_calls_eq:
  "tool_calls \<noteq> [] \<Longrightarrow> run_tool_calls env tool_calls st =
     (case run_tools env (sent st @ [RunTools tool_calls]) of
        Inl e \<Rightarrow> (Inl e, st\<lparr>sent := sent st @ [RunTools tool_calls]\<rparr>)
      | Inr responses \<Rightarrow>
          (Inr (), st\<lparr>sent := sent st @ [RunTools tool_calls],
                      is_finished := is_finished st \<or> (\<exists>r\<in>set responses. py_str (function_name r) = sentinel)\<rparr>))"
  unfolding run_tool_calls_def then_do_def remote_def scan_responses
  by (simp add: Let_def split: sum.splits)

lemma loop_body_eq:
  "loop_body lit env st =
     (case next_tool_calls lit env st of
        (Inl e, st1) \<Rightarrow> (Inl e, st1)
      | (Inr tool_calls, st1) \<Rightarrow> run_tool_calls env tool_calls st1)"
  by (simp add: loop_body_def then_do_def)

lemma loop_body_Inr:
  assumes "loop_body lit env st = (Inr u, st')"
  shows "\<exists>tool_calls st1 responses.
      next_tool_calls lit env st = (Inr tool_calls, st1)
    \<and> run_tools env (sent st1 @ [RunTools tool_calls]) = Inr responses
    \<and> st' = st1\<lparr>sent := sent st1 @ [RunTools tool_calls],
               is_finished := is_finished st \<or> (\<exists>r\<in>set responses. py_str (function_name r) = sentinel)\<rparr>"
proof -
  obtain x st1 where n: "next_tool_calls lit env st = (x, st1)" by (cases "next_tool_calls lit env st")
  with assms obtain tool_calls where x: "x = Inr tool_calls"
    and rt: "run_tool_calls env tool_calls st1 = (Inr u, st')"
    by (cases x) (auto simp: loop_body_eq)
  from next_tool_calls_Inr[OF n[unfolded x]] have ne: "tool_calls \<noteq> []"
    and fin: "is_finished st1 = is_finished st" by auto
  from rt obtain responses where "run_tools env (sent st1 @ [RunTools tool_calls]) = Inr responses"
    and "st' = st1\<lparr>sent := sent st1 @ [RunTools tool_calls],
               is_finished := is_finished st1 \<or> (\<exists>r\<in>set responses. py_str (function_name r) = sentinel)\<rparr>"
    unfolding run_tool_calls_eq[OF ne] by (auto split: sum.splits)
  with n x fin show ?thesis by auto
qed

lemma loop_body_log:
  "prefix (sent st) (sent (snd (loop_body lit env st)))"
proof (cases "next_tool_calls lit env st")
  case (Pair x st1)
  have p: "prefix (sent st) (sent st1)" using next_tool_calls_log[of st lit env] Pair by simp
  show ?thesis
  proof (cases x)
    case (Inl e)
    then show ?thesis using Pair p by (simp add: loop_body_eq)
  next
    case (Inr tool_calls)
    have "prefix (sent st1) (sent (snd (run_tool_calls env tool_calls st1)))"
      unfolding run_tool_calls_def then_do_def remote_def ret_def
      by (simp add: Let_def split: sum.splits)
    then show ?thesis using Pair Inr p by (auto simp: loop_body_eq intro: prefix_order.trans)
  qed
qed

lemma loop_log:
  "loop lit env st = Some y \<Longrightarrow> prefix (sent st) (sent (snd y))"
proof (induction lit env st y rule: loop.raw_induct[rotated, consumes 1, case_names step])
  case (step loop' lit env st y)
  show ?case
  proof (cases "is_finished st")
    case True
    with step.hyps show ?thesis by auto
  next
    case False
    obtain x st' where b: "loop_body lit env st = (x, st')" by (cases "loop_body lit env st")
    have p: "prefix (sent st) (sent st')" using loop_body_log[of st lit env] b by simp
    show ?thesis
    proof (cases x)
      case (Inl e)
      with step.hyps False b p show ?thesis by auto
    next
      case (Inr u)
      show ?thesis
      proof (cases "is_finished st'")
        case True
        with step.hyps False b Inr p show ?thesis by auto
      next
        case nf: False
        with step.hyps False b Inr have "loop' lit env st' = Some y" by simp
        then have "prefix (sent st') (sent (snd y))" by (rule step.IH)
        with p show ?thesis by (rule prefix_order.trans)
      qed
    qed
  qed
qed

lemma loop_exit_observed:
  "loop lit env st = Some y \<Longrightarrow> \<not> is_finished st \<Longrightarrow> fst y = Inr () \<Longrightarrow>
     is_finished (snd y) \<and>
     (\<exists>h tool_calls responses r. sent (snd y) = h @ [RunTools tool_calls]
        \<and> run_tools env (sent (snd y)) = Inr responses
        \<and> r \<in> set responses \<and> py_str (function_name r) = sentinel)"
proof (induction lit env st y rule: loop.raw_induct[rotated, consumes 1, case_names step])
  case (step loop' lit env st y)
  obtain x st' where b: "loop_body lit env st = (x, st')" by (cases "loop_body lit env st")
  show ?case
  proof (cases x)
    case (Inl e)
    with step.hyps step.prems b show ?thesis by auto
  next
    case (Inr u)
    show ?thesis
    proof (cases "is_finished st'")
      case True
      with step.hyps step.prems b Inr have y: "y = (Inr (), st')" by simp
      from loop_body_Inr[OF b[unfolded Inr]] obtain tool_calls st1 responses where
        rt: "run_tools env (sent st1 @ [RunTools tool_calls]) = Inr responses"
        and st': "st' = st1\<lparr>sent := sent st1 @ [RunTools tool_calls],
               is_finished := is_finished st \<or> (\<exists>r\<in>set responses. py_str (function_name r) = sentinel)\<rparr>"
        by blast
      from st' True step.prems obtain r where "r \<in> set responses" "py_str (function_name r) = sentinel"
        by auto
      moreover have "sent st' = sent st1 @ [RunTools tool_calls]" using st' by simp
      ultimately show ?thesis using y True rt by auto
    next
      case False
      with step.hyps step.prems b Inr have "loop' lit env st' = Some y" by simp
      then show ?thesis using False step.prems by (intro step.IH)
    qed
  qed
qed

lemma iterations_running:
  assumes raise: "\<forall>n e. fst (iterations n lit env st) \<noteq> Inl e"
      and quiet: "\<forall>n h tool_calls responses.
                    sent (snd (iterations n lit env st)) = h @ [RunTools tool_calls]
                    \<and> run_tools env (h @ [RunTools tool_calls]) = Inr responses
                    \<longrightarrow> (\<forall>r\<in>set responses. py_str (function_name r) \<noteq> sentinel)"
      and start: "\<not> is_finished st"
  shows "\<exists>s. iterations n lit env st = (Inr (), s) \<and> \<not> is_finished s"
proof (induction n)
  case 0
  show ?case using start by simp
next
  case (Suc n)
  then obtain s where s: "iterations n lit env st = (Inr (), s)" "\<not> is_finished s" by blast
  then have it: "iterations (Suc n) lit env st = loop_body lit env s" by simp
  obtain x s' where b: "loop_body lit env s = (x, s')" by (cases "loop_body lit env s")
  from raise[rule_format, of "Suc n"] it b obtain u where x: "x = Inr u" by (cases x) auto
  from loop_body_Inr[OF b[unfolded x]] obtain tool_calls s1 responses where
    rt: "run_tools env (sent s1 @ [RunTools tool_calls]) = Inr responses"
    and s': "s' = s1\<lparr>sent := sent s1 @ [RunTools tool_calls],
               is_finished := is_finished s \<or> (\<exists>r\<in>set responses. py_str (function_name r) = sentinel)\<rparr>"
    by blast
  have "sent (snd (iterations (Suc n) lit env st)) = sent s1 @ [RunTools tool_calls]"
    using it b s' by simp
  with quiet rt have "\<forall>r\<in>set responses. py_str (function_name r) \<noteq> sentinel" by blast
  with s' s(2) have "\<not> is_finished s'" by simp
  with it b x show ?case by simp
qed

lemma loop_diverges:
  assumes raise: "\<forall>n e. fst (iterations n lit env st) \<noteq> Inl e"
      and quiet: "\<forall>n h tool_calls responses.
                    sent (snd (iterations n lit env st)) = h @ [RunTools tool_calls]
                    \<and> run_tools env (h @ [RunTools tool_calls]) = Inr responses
                    \<longrightarrow> (\<forall>r\<in>set responses. py_str (function_name r) \<noteq> sentinel)"
      and start: "\<not> is_finished st"
  shows "loop lit env st = None"
proof (rule ccontr)
  assume "loop lit env st \<noteq> None"
  then obtain y where y: "loop lit env st = Some y" by blast
  have "loop l e s = Some y \<Longrightarrow> l = lit \<Longrightarrow> e = env \<Longrightarrow>
          (\<exists>n. iterations n lit env st = (Inr (), s)) \<Longrightarrow> False" for l e s y
  proof (induction l e s y rule: loop.raw_induct[rotated, consumes 1, case_names step])
    case (step loop' l e s y)
    from step.prems obtain n where n: "iterations n lit env st = (Inr (), s)" by blast
    from iterations_running[OF raise quiet start, of n] n have nf: "\<not> is_finished s" by simp
    from iterations_running[OF raise quiet start, of "Suc n"] n nf obtain s' where
      b: "loop_body lit env s = (Inr (), s')" and nf': "\<not> is_finished s'" by auto
    then have nx: "iterations (Suc n) lit env st = (Inr (), s')" using n nf by simp
    from step.hyps step.prems(1,2) nf b nf' have "loop' l e s' = Some y" by simp
    from step.IH[OF this step.prems(1,2)] nx show False by blast
  qed
  from this[OF y refl refl] show False by (metis iterations.simps(1))
qed

subsection \<open>Runs in the example environment\<close>

lemma example_env_apply:
  "completions_create (example_env [c]) h = Inr (reply c)"
  "report_llm_usage (example_env rs) h = Inr ()"
  "add_messages (example_env rs) h = Inr ()"
  "add_task (example_env rs) h = Inr ()"
  "report_execution_metrics (example_env rs) h = Inr ()"
  "run_tools (example_env rs) (h @ [RunTools tool_calls]) = Inr (map echo tool_calls)"
  "randint (example_env rs) h = 23456"
  "now (example_env rs) h = ''2025-04-23 08:00:00''"
  by (simp_all add: example_env_def)

lemma decimal_123456: "decimal 123456 = ''123456''"
  by (simp add: decimal.simps)

lemma example_body:
  assumes "get_function_and_payload lit (reply c) = Inr (tool_name, pl)"
  shows "loop_body lit (example_env [c]) st =
     (Inr (),
      st\<lparr>execution_tokens := add_usage (execution_tokens st) (reply c),
         sent := sent st @ [ChatCompletionsCreate ''nvidia/llama-3.1-nemotron-ultra-253b-v1'',
                            ReportLlmUsage (reply c), AddResponse (reply c),
                            RunTools [\<lparr>name = tool_name, call_type = XPANDER, payload = pl,
                                       tool_call_id = ''call_123456''\<rparr>]],
         is_finished := is_finished st \<or> py_str tool_name = sentinel\<rparr>)"
  unfolding loop_body_def next_tool_calls_def run_tool_calls_def then_do_def remote_def scan_responses
  by (simp add: example_env_apply assms decimal_123456 echo_def)

lemma idle_iterations:
  assumes "get_function_and_payload lit (reply c) = Inr (None, None)"
  shows "\<exists>s. iterations n lit (example_env [c]) (initial_state []) = (Inr (), s) \<and> \<not> is_finished s
            \<and> (\<forall>h tool_calls. sent s = h @ [RunTools tool_calls] \<longrightarrow>
                  tool_calls = [\<lparr>name = None, call_type = XPANDER, payload = None,
                                tool_call_id = ''call_123456''\<rparr>])"
proof (induction n)
  case 0
  show ?case by (simp add: initial_state_def)
next
  case (Suc n)
  then obtain s where s: "iterations n lit (example_env [c]) (initial_state []) = (Inr (), s)"
    "\<not> is_finished s" by blast
  then show ?case
    by (simp add: example_body[OF assms] py_str_def sentinel_def)
qed

section \<open>The driver: claims\<close>

text \<open>
  C1, as stated, fails in its second half: a run can end without any tool result at all.
  When the model replies \<^verbatim>\<open>[foo{not valid}]\<close>, the extractor raises, nothing catches
  the exception, and \<open>run\<close> ends with it after five requests, none of them a tool
  execution.
\<close>

theorem never_finishes_counterexample:
  "run literal_eval (example_env [''[foo{not valid}]'']) [] None None =
     Some (Inl LiteralError,
       [AddTask ''Please check the status of all recorded meetings.'' None,
        AddMessages [\<lparr>role = ''assistant'', message_content = ''the time now is : 2025-04-23 08:00:00''\<rparr>],
        ChatCompletionsCreate ''nvidia/llama-3.1-nemotron-ultra-253b-v1'',
        ReportLlmUsage (reply ''[foo{not valid}]''),
        AddResponse (reply ''[foo{not valid}]'')])"
proof -
  let ?E = "example_env [''[foo{not valid}]'']"
  let ?zero = "\<lparr>completion_tokens = 0, prompt_tokens = 0, total_tokens = 0\<rparr>"
  let ?h = "[AddTask ''Please check the status of all recorded meetings.'' None,
        AddMessages [\<lparr>role = ''assistant'', message_content = ''the time now is : 2025-04-23 08:00:00''\<rparr>]]"
  let ?S0 = "\<lparr>is_finished = False, execution_tokens = ?zero, sent = ?h\<rparr>"
  let ?S1 = "\<lparr>is_finished = False, execution_tokens = ?zero,
      sent = ?h @ [ChatCompletionsCreate ''nvidia/llama-3.1-nemotron-ultra-253b-v1'',
        ReportLlmUsage (reply ''[foo{not valid}]''),
        AddResponse (reply ''[foo{not valid}]'')]\<rparr>"
  have g: "get_function_and_payload literal_eval (reply ''[foo{not valid}]'') = Inl LiteralError"
    by code_simp
  have s: "start ?E None None (initial_state []) = (Inr (), ?S0)"
    by (simp add: start_def then_do_def remote_def example_env_apply initial_state_def default_task_def truthy_def)
  have b: "loop_body literal_eval ?E ?S0 = (Inl LiteralError, ?S1)"
    by (simp add: loop_body_def next_tool_calls_def then_do_def remote_def example_env_apply add_usage_def g)
       (simp add: reply_def)
  have "loop literal_eval ?E ?S0 = Some (Inl LiteralError, ?S1)"
    by (subst loop.simps) (simp add: b)
  then show ?thesis
    by (simp add: run_def s)
qed

text \<open>
  C1, amended: started in the state RUNNING, the loop leaves with \<open>is_finished = True\<close>
  only when the last request was a tool execution with a result whose function name is the
  sentinel \<^verbatim>\<open>xpfinish-agent-execution-finished\<close>; and in every run in which no iteration
  raises and no executed tool result carries that name, the loop never terminates (there is
  no iteration cap). The only other way out of the loop is an exception raised by a call.
\<close>

theorem finished_only_on_sentinel:
  assumes "\<not> is_finished st"
  shows "(\<forall>st'. loop lit env st = Some (Inr (), st') \<longrightarrow>
            is_finished st' \<and>
            (\<exists>h tool_calls responses r.
                sent st' = h @ [RunTools tool_calls]
              \<and> run_tools env (sent st') = Inr responses
              \<and> r \<in> set responses \<and> py_str (function_name r) = sentinel))
       \<and> ((\<forall>n e. fst (iterations n lit env st) \<noteq> Inl e)
            \<and> (\<forall>n h tool_calls responses.
                   sent (snd (iterations n lit env st)) = h @ [RunTools tool_calls]
                   \<and> run_tools env (h @ [RunTools tool_calls]) = Inr responses
                   \<longrightarrow> (\<forall>r\<in>set responses. py_str (function_name r) \<noteq> sentinel))
          \<longrightarrow> loop lit env st = None)"
proof (intro conjI allI impI)
  fix st' assume "loop lit env st = Some (Inr (), st')"
  from loop_exit_observed[OF this] assms
  show "is_finished st'"
    and "\<exists>h tool_calls responses r.
                sent st' = h @ [RunTools tool_calls]
              \<and> run_tools env (sent st') = Inr responses
              \<and> r \<in> set responses \<and> py_str (function_name r) = sentinel"
    by simp_all
next
  assume "(\<forall>n e. fst (iterations n lit env st) \<noteq> Inl e)
            \<and> (\<forall>n h tool_calls responses.
                   sent (snd (iterations n lit env st)) = h @ [RunTools tool_calls]
                   \<and> run_tools env (h @ [RunTools tool_calls]) = Inr responses
                   \<longrightarrow> (\<forall>r\<in>set responses. py_str (function_name r) \<noteq> sentinel))"
  then show "loop lit env st = None"
    using assms by (intro loop_diverges) blast+
qed

text \<open>C1, witness: a model that never calls a tool keeps the loop running for ever.\<close>

theorem finished_only_on_sentinel_witness:
  "loop literal_eval (example_env [''I am still thinking.'']) (initial_state []) = None"
proof -
  let ?E = "example_env [''I am still thinking.'']"
  have g: "get_function_and_payload literal_eval (reply ''I am still thinking.'') = Inr (None, None)"
    by code_simp
  have nf: "\<not> is_finished (initial_state [])" by (simp add: initial_state_def)
  have 1: "\<forall>n e. fst (iterations n literal_eval ?E (initial_state [])) \<noteq> Inl e"
    using idle_iterations[OF g] by (metis fst_conv sum.distinct(1))
  have 2: "\<forall>n h tool_calls responses.
      sent (snd (iterations n literal_eval ?E (initial_state []))) = h @ [RunTools tool_calls]
      \<and> run_tools ?E (h @ [RunTools tool_calls]) = Inr responses
      \<longrightarrow> (\<forall>r\<in>set responses. py_str (function_name r) \<noteq> sentinel)"
  proof (intro allI impI, elim conjE)
    fix n h tool_calls responses
    assume a: "sent (snd (iterations n literal_eval ?E (initial_state []))) = h @ [RunTools tool_calls]"
      and b: "run_tools ?E (h @ [RunTools tool_calls]) = Inr responses"
    from idle_iterations[OF g, of n] a
    have "tool_calls = [\<lparr>name = None, call_type = XPANDER, payload = None, tool_call_id = ''call_123456''\<rparr>]"
      by auto
    with b show "\<forall>r\<in>set responses. py_str (function_name r) \<noteq> sentinel"
      by (auto simp: example_env_apply echo_def py_str_def sentinel_def)
  qed
  from finished_only_on_sentinel[OF nf, of literal_eval ?E] 1 2 show ?thesis by blast
qed



lemma reply_usage:
  "usage_completion_tokens (reply c) = 0" "usage_prompt_tokens (reply c) = 0"
  "usage_total_tokens (reply c) = 0" "content (reply c) = c"
  by (simp_all add: reply_def)

text \<open>
  C3: in every iteration entered with \<open>is_finished = False\<close> in which the calls before
  the extraction return and the extractor finds no bracketed call (\<open>(None, None)\<close>), the
  driver still builds exactly one tool call, with name \<open>None\<close> and payload \<open>None\<close>,
  and sends it to the remote tool execution: it is the last request of the iteration.
\<close>

theorem no_call_still_executes:
  assumes "\<not> is_finished st"
      and "completions_create env (sent st @ [ChatCompletionsCreate ''nvidia/llama-3.1-nemotron-ultra-253b-v1'']) = Inr response"
      and "report_llm_usage env (sent st @ [ChatCompletionsCreate ''nvidia/llama-3.1-nemotron-ultra-253b-v1'',
             ReportLlmUsage response]) = Inr ()"
      and "add_messages env (sent st @ [ChatCompletionsCreate ''nvidia/llama-3.1-nemotron-ultra-253b-v1'',
             ReportLlmUsage response, AddResponse response]) = Inr ()"
      and "get_function_and_payload lit response = Inr (None, None)"
  shows "\<exists>call_id. sent (snd (loop_body lit env st)) =
           sent st @ [ChatCompletionsCreate ''nvidia/llama-3.1-nemotron-ultra-253b-v1'',
                      ReportLlmUsage response, AddResponse response,
                      RunTools [\<lparr>name = None, call_type = XPANDER, payload = None, tool_call_id = call_id\<rparr>]]"
  unfolding loop_body_def next_tool_calls_def run_tool_calls_def then_do_def remote_def
  by (simp add: assms Let_def split: sum.splits)

text \<open>C3, witness: the first iteration with a model that replies in prose.\<close>

theorem no_call_still_executes_witness:
  "\<exists>call_id. sent (snd (loop_body literal_eval (example_env [''I am still thinking.'']) (initial_state []))) =
     sent (initial_state []) @
       [ChatCompletionsCreate ''nvidia/llama-3.1-nemotron-ultra-253b-v1'',
        ReportLlmUsage (reply ''I am still thinking.''), AddResponse (reply ''I am still thinking.''),
        RunTools [\<lparr>name = None, call_type = XPANDER, payload = None, tool_call_id = call_id\<rparr>]]"
proof (rule no_call_still_executes)
  show "\<not> is_finished (initial_state [])" by (simp add: initial_state_def)
  show "get_function_and_payload literal_eval (reply ''I am still thinking.'') = Inr (None, None)"
    by code_simp
qed (simp_all add: example_env_apply)

text \<open>A tool result with the sentinel name ends the loop in the iteration that executed it.\<close>

lemma sentinel_result_finishes_aux:
  assumes "\<not> is_finished st"
      and "next_tool_calls lit env st = (Inr tool_calls, st1)"
      and "run_tools env (sent st1 @ [RunTools tool_calls]) = Inr responses"
      and "r \<in> set responses" and "py_str (function_name r) = sentinel"
  shows "loop lit env st =
           Some (Inr (), st1\<lparr>sent := sent st1 @ [RunTools tool_calls], is_finished := True\<rparr>)"
proof -
  from next_tool_calls_Inr[OF assms(2)] have ne: "tool_calls \<noteq> []" by auto
  have "\<exists>r\<in>set responses. py_str (function_name r) = sentinel" using assms(4,5) by blast
  then have "loop_body lit env st =
      (Inr (), st1\<lparr>sent := sent st1 @ [RunTools tool_calls], is_finished := True\<rparr>)"
    using assms(3) by (simp add: loop_body_eq assms(2) run_tool_calls_eq[OF ne])
  then show ?thesis using assms(1) by (subst loop.simps) simp
qed

text \<open>
  C4: whenever the tool execution of an iteration returns a result whose function name is
  the sentinel, the loop ends right there in the state FINISHED, with no further request,
  whatever the status code, the success flag and the payload of that result are.
\<close>

theorem sentinel_result_finishes:
  assumes "\<not> is_finished st"
      and "next_tool_calls lit env st = (Inr tool_calls, st1)"
      and "run_tools env (sent st1 @ [RunTools tool_calls]) = Inr responses"
      and "r \<in> set responses" and "py_str (function_name r) = sentinel"
  shows "loop lit env st =
           Some (Inr (), st1\<lparr>sent := sent st1 @ [RunTools tool_calls], is_finished := True\<rparr>)"
  using assms by (rule sentinel_result_finishes_aux)

text \<open>C4, witness: a sentinel result with status 500 and \<open>is_success = False\<close> ends the loop.\<close>

theorem sentinel_result_finishes_witness:
  "loop literal_eval
     ((example_env [''[xpfinish-agent-execution-finished{}]''])
        \<lparr>run_tools := \<lambda>h. Inr [\<lparr>function_name = Some ''xpfinish-agent-execution-finished'',
                                   status_code = 500, is_success = False, result_payload = None\<rparr>]\<rparr>)
     (initial_state []) =
   Some (Inr (),
     \<lparr>is_finished = True,
      execution_tokens = \<lparr>completion_tokens = 0, prompt_tokens = 0, total_tokens = 0\<rparr>,
      sent = [ChatCompletionsCreate ''nvidia/llama-3.1-nemotron-ultra-253b-v1'',
              ReportLlmUsage (reply ''[xpfinish-agent-execution-finished{}]''),
              AddResponse (reply ''[xpfinish-agent-execution-finished{}]''),
              RunTools [\<lparr>name = Some ''xpfinish-agent-execution-finished'', call_type = XPANDER,
                         payload = Some (PyDict []), tool_call_id = ''call_123456''\<rparr>]]\<rparr>)"
proof -
  let ?r = "\<lparr>function_name = Some ''xpfinish-agent-execution-finished'',
             status_code = 500, is_success = False, result_payload = None\<rparr>"
  let ?E = "(example_env [''[xpfinish-agent-execution-finished{}]''])\<lparr>run_tools := \<lambda>h. Inr [?r]\<rparr>"
  let ?tc = "[\<lparr>name = Some ''xpfinish-agent-execution-finished'', call_type = XPANDER,
                payload = Some (PyDict []), tool_call_id = ''call_123456''\<rparr>]"
  let ?st1 = "\<lparr>is_finished = False,
      execution_tokens = \<lparr>completion_tokens = 0, prompt_tokens = 0, total_tokens = 0\<rparr>,
      sent = [ChatCompletionsCreate ''nvidia/llama-3.1-nemotron-ultra-253b-v1'',
              ReportLlmUsage (reply ''[xpfinish-agent-execution-finished{}]''),
              AddResponse (reply ''[xpfinish-agent-execution-finished{}]'')]\<rparr>"
  have g: "get_function_and_payload literal_eval (reply ''[xpfinish-agent-execution-finished{}]'')
      = Inr (Some ''xpfinish-agent-execution-finished'', Some (PyDict []))"
    by code_simp
  have 1: "\<not> is_finished (initial_state [])" by (simp add: initial_state_def)
  have 2: "next_tool_calls literal_eval ?E (initial_state []) = (Inr ?tc, ?st1)"
    unfolding next_tool_calls_def then_do_def remote_def
    by (simp add: example_env_def g decimal_123456 initial_state_def add_usage_def reply_usage)
  have 3: "run_tools ?E (sent ?st1 @ [RunTools ?tc]) = Inr [?r]" by simp
  have 4: "?r \<in> set [?r]" by simp
  have 5: "py_str (function_name ?r) = sentinel" by (simp add: py_str_def sentinel_def)
  from sentinel_result_finishes[OF 1 2 3 4 5] show ?thesis by simp
qed

lemma start_log:
  "\<exists>rest. sent (snd (start env prompt thread_id st)) =
     sent st @ AddTask (case prompt of None \<Rightarrow> default_task | Some p \<Rightarrow> if p = [] then default_task else p)
                       (if truthy thread_id then thread_id else None) # rest"
  unfolding start_def then_do_def remote_def
  by (simp add: Let_def split: sum.splits)

lemma finish_Inr:
  assumes "finish env st = (Inr (res_text, tid), st')"
  shows "retrieve_execution_result env (sent st @ [RetrieveExecutionResult])
           = Inr \<lparr>result = res_text, memory_thread_id = tid\<rparr>"
  using assms unfolding finish_def then_do_def remote_def ret_def
  by (auto simp: Let_def split: sum.splits)

lemma run_finished:
  assumes "start env prompt thread_id (initial_state h0) = (Inr (), st0)"
      and "loop lit env st0 = Some (Inr (), st1)"
      and "retrieve_execution_result env (sent st1 @ [RetrieveExecutionResult]) = Inr res"
      and "report_execution_metrics env
             (sent st1 @ [RetrieveExecutionResult,
                          ReportExecutionMetrics (execution_tokens st1) ''meta/llama-3.1-405b-instruct''])
           = Inr ()"
  shows "run lit env h0 prompt thread_id =
           Some (Inr (result res, memory_thread_id res),
                 sent st1 @ [RetrieveExecutionResult,
                             ReportExecutionMetrics (execution_tokens st1) ''meta/llama-3.1-405b-instruct''])"
  by (simp add: run_def assms finish_def then_do_def remote_def ret_def)

text \<open>
  C8, as stated, fails: the thread id returned is whatever the platform reports in its
  execution result; the driver has no check that it is the one supplied. With a platform
  that reports \<^verbatim>\<open>thread-2\<close>, a run started with \<^verbatim>\<open>thread-1\<close> returns \<^verbatim>\<open>thread-2\<close>.
\<close>

theorem thread_id_counterexample:
  "map_option fst
     (run literal_eval
        ((example_env [''[xpfinish-agent-execution-finished{}]''])
           \<lparr>retrieve_execution_result := \<lambda>h. Inr \<lparr>result = ''done'', memory_thread_id = ''thread-2''\<rparr>\<rparr>)
        [] (Some ''What can you do?'') (Some ''thread-1''))
   = Some (Inr (''done'', ''thread-2''))"
proof -
  let ?E = "(example_env [''[xpfinish-agent-execution-finished{}]''])
           \<lparr>retrieve_execution_result := \<lambda>h. Inr \<lparr>result = ''done'', memory_thread_id = ''thread-2''\<rparr>\<rparr>"
  have g: "get_function_and_payload literal_eval (reply ''[xpfinish-agent-execution-finished{}]'')
      = Inr (Some ''xpfinish-agent-execution-finished'', Some (PyDict []))"
    by code_simp
  obtain st0 where s: "start ?E (Some ''What can you do?'') (Some ''thread-1'') (initial_state []) = (Inr (), st0)"
    and nf: "\<not> is_finished st0"
    by (simp add: start_def then_do_def remote_def example_env_def initial_state_def)
  obtain tc st1 where n: "next_tool_calls literal_eval ?E st0 = (Inr tc, st1)"
    and tc: "tc = [\<lparr>name = Some ''xpfinish-agent-execution-finished'', call_type = XPANDER,
                payload = Some (PyDict []), tool_call_id = ''call_123456''\<rparr>]"
    unfolding next_tool_calls_def then_do_def remote_def
    by (simp add: example_env_def g decimal_123456)
  have rt: "run_tools ?E (sent st1 @ [RunTools tc]) = Inr (map echo tc)"
    by (simp add: example_env_def)
  have l: "loop literal_eval ?E st0 = Some (Inr (), st1\<lparr>sent := sent st1 @ [RunTools tc], is_finished := True\<rparr>)"
    by (rule sentinel_result_finishes_aux[OF nf n rt, of "echo (hd tc)"])
       (simp_all add: tc echo_def py_str_def sentinel_def)
  show ?thesis
    by (subst run_finished[OF s l, of "\<lparr>result = ''done'', memory_thread_id = ''thread-2''\<rparr>"])
       (simp_all add: example_env_def)
qed


text \<open>
  C8, amended: for every invocation of \<open>run\<close> with a non-empty thread id, the first
  request is the task creation with that id; and when the run returns, the pair returned is
  the result text and the \<^verbatim>\<open>memory_thread_id\<close> of the execution result that the platform
  gave after that task creation, unchanged. So the id returned is the id supplied exactly
  when the platform reports the thread it was given. The driver takes nothing else from an
  earlier call: \<open>run\<close> starts from \<open>initial_state\<close> every time.
\<close>

theorem thread_id_round_trip:
  assumes "thread_id \<noteq> []"
  shows "(\<exists>task rest. sent (snd (start env prompt (Some thread_id) st))
                        = sent st @ AddTask task (Some thread_id) # rest)
       \<and> (\<forall>res_text tid log. run lit env h0 prompt (Some thread_id) = Some (Inr (res_text, tid), log) \<longrightarrow>
            (\<exists>task h. prefix (h0 @ [AddTask task (Some thread_id)]) h
                    \<and> retrieve_execution_result env h = Inr \<lparr>result = res_text, memory_thread_id = tid\<rparr>))"
proof (intro conjI allI impI)
  show "\<exists>task rest. sent (snd (start env prompt (Some thread_id) st))
                        = sent st @ AddTask task (Some thread_id) # rest"
    using start_log[of env prompt "Some thread_id" st] assms by (auto simp: truthy_def)
next
  fix res_text tid log
  assume r: "run lit env h0 prompt (Some thread_id) = Some (Inr (res_text, tid), log)"
  obtain x st0 where s: "start env prompt (Some thread_id) (initial_state h0) = (x, st0)"
    by (cases "start env prompt (Some thread_id) (initial_state h0)")
  from start_log[of env prompt "Some thread_id" "initial_state h0"] s assms
  obtain task rest where h: "sent st0 = h0 @ AddTask task (Some thread_id) # rest"
    by (auto simp: truthy_def initial_state_def)
  from r s obtain u where x: "x = Inr u" by (cases x) (auto simp: run_def)
  from r s x obtain y where l: "loop lit env st0 = Some y"
    by (cases "loop lit env st0") (auto simp: run_def)
  obtain z st' where y: "y = (z, st')" by (cases y)
  from r s x l y obtain v where z: "z = Inr v" by (cases z) (auto simp: run_def)
  from r s x l y z obtain st'' where f: "finish env st' = (Inr (res_text, tid), st'')"
    by (cases "finish env st'") (auto simp: run_def)
  from loop_log[OF l] y have "prefix (sent st0) (sent st')" by simp
  then have "prefix (h0 @ [AddTask task (Some thread_id)]) (sent st' @ [RetrieveExecutionResult])"
    unfolding h by (auto simp: prefix_def)
  with finish_Inr[OF f]
  show "\<exists>task h. prefix (h0 @ [AddTask task (Some thread_id)]) h
                    \<and> retrieve_execution_result env h = Inr \<lparr>result = res_text, memory_thread_id = tid\<rparr>"
    by blast
qed

text \<open>C8, witness: a run that resumes the thread \<^verbatim>\<open>b1047931\<close>.\<close>

theorem thread_id_round_trip_witness:
  "(\<exists>task rest. sent (snd (start (example_env [''[xpfinish-agent-execution-finished{}]''])
                              (Some ''List my meetings'') (Some ''b1047931'') (initial_state [])))
                        = sent (initial_state []) @ AddTask task (Some ''b1047931'') # rest)
   \<and> (\<exists>task h. prefix ([] @ [AddTask task (Some ''b1047931'')]) h
            \<and> retrieve_execution_result (example_env [''[xpfinish-agent-execution-finished{}]'']) h
                = Inr \<lparr>result = ''done'', memory_thread_id = ''b1047931''\<rparr>)"
proof -
  let ?E = "example_env [''[xpfinish-agent-execution-finished{}]'']"
  have g: "get_function_and_payload literal_eval (reply ''[xpfinish-agent-execution-finished{}]'')
      = Inr (Some ''xpfinish-agent-execution-finished'', Some (PyDict []))"
    by code_simp
  obtain st0 where s: "start ?E (Some ''List my meetings'') (Some ''b1047931'') (initial_state []) = (Inr (), st0)"
    and nf: "\<not> is_finished st0"
    and h0: "sent st0 = [AddTask ''List my meetings'' (Some ''b1047931''),
        AddMessages [\<lparr>role = ''assistant'', message_content = ''the time now is : 2025-04-23 08:00:00''\<rparr>]]"
    by (simp add: start_def then_do_def remote_def example_env_def initial_state_def truthy_def)
  have b: "loop_body literal_eval ?E st0 = (Inr (),
      st0\<lparr>execution_tokens := add_usage (execution_tokens st0) (reply ''[xpfinish-agent-execution-finished{}]''),
         sent := sent st0 @ [ChatCompletionsCreate ''nvidia/llama-3.1-nemotron-ultra-253b-v1'',
                            ReportLlmUsage (reply ''[xpfinish-agent-execution-finished{}]''),
                            AddResponse (reply ''[xpfinish-agent-execution-finished{}]''),
                            RunTools [\<lparr>name = Some ''xpfinish-agent-execution-finished'', call_type = XPANDER,
                                       payload = Some (PyDict []), tool_call_id = ''call_123456''\<rparr>]],
         is_finished := True\<rparr>)"
    using example_body[OF g, of st0] by (simp add: py_str_def sentinel_def)
  define st1 where "st1 = snd (loop_body literal_eval ?E st0)"
  have sent1: "sent st1 = sent st0 @ [ChatCompletionsCreate ''nvidia/llama-3.1-nemotron-ultra-253b-v1'',
                            ReportLlmUsage (reply ''[xpfinish-agent-execution-finished{}]''),
                            AddResponse (reply ''[xpfinish-agent-execution-finished{}]''),
                            RunTools [\<lparr>name = Some ''xpfinish-agent-execution-finished'', call_type = XPANDER,
                                       payload = Some (PyDict []), tool_call_id = ''call_123456''\<rparr>]]"
    by (simp add: st1_def b)
  have l: "loop literal_eval ?E st0 = Some (Inr (), st1)"
    using nf by (subst loop.simps) (simp add: b st1_def)
  have ret: "retrieve_execution_result ?E (sent st1 @ [RetrieveExecutionResult])
      = Inr \<lparr>result = ''done'', memory_thread_id = ''b1047931''\<rparr>"
    by (simp add: example_env_def sent1 h0)
  have rep: "report_execution_metrics ?E
             (sent st1 @ [RetrieveExecutionResult,
                          ReportExecutionMetrics (execution_tokens st1) ''meta/llama-3.1-405b-instruct''])
           = Inr ()"
    by (simp add: example_env_def)
  have "\<exists>log. run literal_eval ?E [] (Some ''List my meetings'') (Some ''b1047931'')
      = Some (Inr (''done'', ''b1047931''), log)"
    using run_finished[OF s l ret rep] by simp
  with thread_id_round_trip[of "''b1047931''" ?E "Some ''List my meetings''" "initial_state []"
      literal_eval "[]"]
  show ?thesis by auto
qed

text \<open>
  C10, as stated, fails for the empty prompt: \<^verbatim>\<open>prompt or default\<close> takes the default
  for every falsy prompt, so the non-\<^verbatim>\<open>None\<close> prompt \<^verbatim>\<open>""\<close> is not used verbatim.
\<close>

theorem default_task_counterexample:
  "hd (sent (snd (start (example_env []) (Some []) None (initial_state []))))
     = AddTask ''Please check the status of all recorded meetings.'' None"
  by (simp add: start_def then_do_def remote_def example_env_def initial_state_def
      default_task_def truthy_def)

text \<open>
  C10, amended: the task submitted is the fixed default string when the prompt is
  \<^verbatim>\<open>None\<close> or empty, and every non-empty prompt is submitted verbatim.
\<close>

theorem default_task_substitution:
  "(\<exists>tid rest. sent (snd (start env None thread_id st))
       = sent st @ AddTask ''Please check the status of all recorded meetings.'' tid # rest)
   \<and> (\<exists>tid rest. sent (snd (start env (Some []) thread_id st))
       = sent st @ AddTask ''Please check the status of all recorded meetings.'' tid # rest)
   \<and> (p \<noteq> [] \<longrightarrow>
        (\<exists>tid rest. sent (snd (start env (Some p) thread_id st)) = sent st @ AddTask p tid # rest))"
  using start_log[of env None thread_id st] start_log[of env "Some []" thread_id st]
    start_log[of env "Some p" thread_id st]
  by (auto simp: default_task_def)

text \<open>C10, witness: the first prompt of the second notebook.\<close>

theorem default_task_substitution_witness:
  "(\<exists>tid rest. sent (snd (start (example_env []) None None (initial_state [])))
       = sent (initial_state []) @ AddTask ''Please check the status of all recorded meetings.'' tid # rest)
   \<and> (\<exists>tid rest. sent (snd (start (example_env []) (Some []) None (initial_state [])))
       = sent (initial_state []) @ AddTask ''Please check the status of all recorded meetings.'' tid # rest)
   \<and> (\<exists>tid rest. sent (snd (start (example_env []) (Some ''Hi! What can you do?'') None (initial_state [])))
       = sent (initial_state []) @ AddTask ''Hi! What can you do?'' tid # rest)"
  using default_task_substitution[of "example_env []" None "initial_state []" "''Hi! What can you do?''"]
  by simp

section \<open>Tool provisioning: claims\<close>

lemma dict_put_keys:
  "(\<exists>v'. (k', v') \<in> set (dict_put k v d)) \<longleftrightarrow> k' = k \<or> (\<exists>v'. (k', v') \<in> set d)"
  by (induction d) (auto split: if_splits)

lemma interfaces_dict_keys_aux:
  "(\<exists>i. (k, i) \<in> set (foldl (\<lambda>interfaces (key, interface). dict_put (lower key) interface interfaces) d available))
     \<longleftrightarrow> (\<exists>i. (k, i) \<in> set d) \<or> (\<exists>key i. (key, i) \<in> set available \<and> k = lower key)"
proof (induction available arbitrary: d)
  case Nil
  show ?case by simp
next
  case (Cons a available)
  obtain key interface where a: "a = (key, interface)" by (cases a)
  show ?case
    unfolding a foldl_Cons prod.case Cons dict_put_keys by auto
qed

lemma interfaces_dict_keys:
  "(\<exists>i. (k, i) \<in> set (interfaces_dict available))
     \<longleftrightarrow> (\<exists>key i. (key, i) \<in> set available \<and> k = lower key)"
  by (simp add: interfaces_dict_def interfaces_dict_keys_aux)

lemma find_interface_None:
  "find_interface q d = None \<longleftrightarrow> (\<forall>key intf. (key, intf) \<in> set d \<longrightarrow> \<not> sublist q key)"
  by (induction d) (auto split: if_splits)

lemma missing_grows:
  "set (missing st) \<subseteq> set (missing (process_tool r d ex st tc))"
  by (auto simp: process_tool_def Let_def split: option.splits sum.splits)

lemma missing_grows_foldl:
  "set (missing st) \<subseteq> set (missing (foldl (process_tool r d ex) st tcs))"
proof (induction tcs arbitrary: st)
  case Nil
  show ?case by simp
next
  case (Cons tc tcs)
  show ?case using missing_grows[of st r d ex tc] Cons[of "process_tool r d ex st tc"] by auto
qed

text \<open>
  C9, as stated, fails for a tool that is already attached: the loop leaves it with
  \<^verbatim>\<open>continue\<close> before it looks for the interface, so although no available interface
  matches \<^verbatim>\<open>Slack\<close>, nothing is appended to \<open>missing\<close>.
\<close>

theorem missing_tool_counterexample:
  "missing (process_tools (\<lambda>n i. Inr []) (interfaces_dict [(''Google Calendar'', 0::nat)])
              [''SlackSendMessage'']
              [\<lparr>cfg_interface = Some ''Slack'', cfg_internal_name = Some ''SlackSendMessage''\<rparr>]) = []
   \<and> find_interface (lower ''Slack'') (interfaces_dict [(''Google Calendar'', 0::nat)]) = None"
  by (simp add: process_tools_def process_tool_def interfaces_dict_def lower_def lower_char_def
      sublist_Cons_right)

text \<open>
  C9, amended: for every configured tool with a non-empty internal name that is not
  attached yet, if no available interface has the lower-cased interface name as a substring
  of its lower-cased name, or if no operation of the interface found has the internal name
  as its graph id, then the pass appends the internal name to \<open>missing\<close>, adds nothing to
  \<open>to_add\<close>, and the loop goes on with the remaining tools: the name is in the final
  \<open>missing\<close> list.
\<close>

theorem missing_tool_skipped:
  assumes "cfg_internal_name tool_config = Some internal_name"
      and "internal_name \<noteq> []" and "internal_name \<notin> set existing_tools"
      and "interface_name = lower (case cfg_interface tool_config of None \<Rightarrow> [] | Some v \<Rightarrow> v)"
      and "(\<forall>key intf. (key, intf) \<in> set available \<longrightarrow> \<not> sublist interface_name (lower key))
         \<or> (\<exists>interface operations.
               find_interface interface_name (interfaces_dict available) = Some interface
             \<and> retrieve_agentic_operations (retrievals st) interface = Inr operations
             \<and> (\<forall>op\<in>set operations. id_to_use_on_graph op \<noteq> Some internal_name))"
  shows "missing (process_tool retrieve_agentic_operations (interfaces_dict available) existing_tools st tool_config)
           = missing st @ [internal_name]
       \<and> to_add (process_tool retrieve_agentic_operations (interfaces_dict available) existing_tools st tool_config)
           = to_add st
       \<and> internal_name \<in> set (missing
            (foldl (process_tool retrieve_agentic_operations (interfaces_dict available) existing_tools)
                   st (tool_config # remaining)))"
proof -
  let ?step = "process_tool retrieve_agentic_operations (interfaces_dict available) existing_tools"
  have step: "missing (?step st tool_config) = missing st @ [internal_name]
      \<and> to_add (?step st tool_config) = to_add st"
    using assms(5)
  proof
    assume none: "\<forall>key intf. (key, intf) \<in> set available \<longrightarrow> \<not> sublist interface_name (lower key)"
    have "find_interface interface_name (interfaces_dict available) = None"
      unfolding find_interface_None
    proof (intro allI impI)
      fix key intf assume "(key, intf) \<in> set (interfaces_dict available)"
      then have "\<exists>i. (key, i) \<in> set (interfaces_dict available)" by blast
      then obtain key' i where "(key', i) \<in> set available" "key = lower key'"
        unfolding interfaces_dict_keys by blast
      with none show "\<not> sublist interface_name key" by blast
    qed
    then show ?thesis
      using assms(1-4) by (simp add: process_tool_def)
  next
    assume "\<exists>interface operations.
               find_interface interface_name (interfaces_dict available) = Some interface
             \<and> retrieve_agentic_operations (retrievals st) interface = Inr operations
             \<and> (\<forall>op\<in>set operations. id_to_use_on_graph op \<noteq> Some internal_name)"
    then obtain interface operations where
      f: "find_interface interface_name (interfaces_dict available) = Some interface"
      and r: "retrieve_agentic_operations (retrievals st) interface = Inr operations"
      and n: "\<forall>op\<in>set operations. id_to_use_on_graph op \<noteq> Some internal_name"
      by blast
    from n have "find (\<lambda>op. id_to_use_on_graph op = Some internal_name) operations = None"
      by (simp add: find_None_iff)
    then show ?thesis
      using assms(1-4) f r by (simp add: process_tool_def)
  qed
  moreover have "internal_name \<in> set (missing (foldl ?step st (tool_config # remaining)))"
    using step missing_grows_foldl[of "?step st tool_config" retrieve_agentic_operations
        "interfaces_dict available" existing_tools remaining]
    by auto
  ultimately show ?thesis by simp
qed

text \<open>C9, witness: an unmatched interface is skipped and the next tool is still added.\<close>

theorem missing_tool_skipped_witness:
  "missing (process_tools (\<lambda>n i. Inr [\<lparr>id_to_use_on_graph = Some ''CalendarEventManagementGetCalendarEventsById'',
                                          operation_name = ''Get Calendar Events by ID''\<rparr>])
              (interfaces_dict [(''Google-Calendar-Sandbox'', 0::nat)]) []
              [\<lparr>cfg_interface = Some ''Slack'', cfg_internal_name = Some ''SlackSendMessage''\<rparr>,
               \<lparr>cfg_interface = Some ''google-calendar'',
                 cfg_internal_name = Some ''CalendarEventManagementGetCalendarEventsById''\<rparr>])
     = [''SlackSendMessage'']"
proof -
  let ?r = "\<lambda>(n::nat) (i::nat). (Inr [\<lparr>id_to_use_on_graph = Some ''CalendarEventManagementGetCalendarEventsById'',
                                          operation_name = ''Get Calendar Events by ID''\<rparr>] :: exn + operation list)"
  let ?tc = "\<lparr>cfg_interface = Some ''Slack'', cfg_internal_name = Some ''SlackSendMessage''\<rparr>"
  let ?st = "\<lparr>to_add = [], missing = [], retrievals = 0\<rparr>"
  have "\<forall>key intf. (key, intf) \<in> set [(''Google-Calendar-Sandbox'', 0::nat)] \<longrightarrow> \<not> sublist (lower ''Slack'') (lower key)"
    by (simp add: lower_def lower_char_def sublist_Cons_right)
  then have "missing (process_tool ?r (interfaces_dict [(''Google-Calendar-Sandbox'', 0::nat)]) [] ?st ?tc)
      = missing ?st @ [''SlackSendMessage'']"
    using missing_tool_skipped[of ?tc "''SlackSendMessage''" "[]" "lower ''Slack''"
        "[(''Google-Calendar-Sandbox'', 0::nat)]" ?r ?st]
    by simp
  then show ?thesis
    by (simp add: process_tools_def)
       (simp add: process_tool_def interfaces_dict_def lower_def lower_char_def sublist_Cons_right)
qed

end
